theory Spec2Isabelle
  imports
    Complex_Main
    "HOL-Library.Char_ord"
    "HOL-Library.List_Lexorder"
    "HOL-Library.Product_Lexorder"
    "HOL-Library.Multiset"
begin

section \<open>Data model\<close>

text \<open>
  A naive Python \<^verbatim>\<open>datetime\<close> is a point on a microsecond grid; it is modelled by the
  number of microseconds since \<^verbatim>\<open>datetime.min\<close>. Comparison of two datetimes is comparison
  of these numbers, \<^verbatim>\<open>.date()\<close> is the number of whole days, and the difference of two
  datetimes is a \<^verbatim>\<open>timedelta\<close>, again a number of microseconds.
\<close>

type_synonym datetime = int
type_synonym timedelta = int
type_synonym date = int

definition usec_per_day :: int where
  "usec_per_day = 86400000000"

definition date_of :: "datetime \<Rightarrow> date" where
  "date_of d = d div usec_per_day"

text \<open>
  Python floats, as far as the program uses them: a finite value or one of the two
  infinities (\<^verbatim>\<open>float('inf')\<close> and its negation, which appears in the sort keys).
  Finite values are kept exact.
\<close>

datatype pyfloat = MinusInf | Float rat | Inf

fun pyfloat_le :: "pyfloat \<Rightarrow> pyfloat \<Rightarrow> bool" where
  "pyfloat_le MinusInf _ = True"
| "pyfloat_le (Float a) MinusInf = False"
| "pyfloat_le (Float a) (Float b) = (a \<le> b)"
| "pyfloat_le (Float a) Inf = True"
| "pyfloat_le Inf Inf = True"
| "pyfloat_le Inf _ = False"

instantiation pyfloat :: linorder
begin

definition less_eq_pyfloat :: "pyfloat \<Rightarrow> pyfloat \<Rightarrow> bool" where
  "less_eq_pyfloat a b = pyfloat_le a b"

definition less_pyfloat :: "pyfloat \<Rightarrow> pyfloat \<Rightarrow> bool" where
  "less_pyfloat a b = (pyfloat_le a b \<and> \<not> pyfloat_le b a)"

instance
proof
  fix x y z :: pyfloat
  show "(x < y) = (x \<le> y \<and> \<not> y \<le> x)"
    by (simp add: less_eq_pyfloat_def less_pyfloat_def)
  show "x \<le> x"
    by (cases x) (simp_all add: less_eq_pyfloat_def)
  show "x \<le> y \<Longrightarrow> y \<le> z \<Longrightarrow> x \<le> z"
    by (cases x; cases y; cases z) (simp_all add: less_eq_pyfloat_def)
  show "x \<le> y \<Longrightarrow> y \<le> x \<Longrightarrow> x = y"
    by (cases x; cases y) (simp_all add: less_eq_pyfloat_def)
  show "x \<le> y \<or> y \<le> x"
    by (cases x; cases y) (auto simp add: less_eq_pyfloat_def)
qed

end

text \<open>Unary minus on floats, \<^verbatim>\<open>-x\<close>.\<close>

fun neg :: "pyfloat \<Rightarrow> pyfloat" where
  "neg MinusInf = Inf"
| "neg (Float a) = Float (- a)"
| "neg Inf = MinusInf"

text \<open>\<^verbatim>\<open>td.total_seconds() / 60\<close>: a timedelta in minutes.\<close>

definition minutes :: "timedelta \<Rightarrow> pyfloat" where
  "minutes td = Float (of_int td / 1000000 / 60)"

text \<open>
  An event of the data model, with its \<^verbatim>\<open>'start'\<close> and \<^verbatim>\<open>'end'\<close> fields read by
  \<^verbatim>\<open>datetime.fromisoformat\<close>. The evaluator is given first on lists of such events; the
  same functions on a decoded payload of any shape follow, and return the same on a
  payload that is a list of such events.
\<close>

record event =
  ev_start :: datetime
  ev_end :: datetime

text \<open>
  Python's \<^verbatim>\<open>min(xs, key=k)\<close> on a non-empty sequence \<open>x # xs\<close>: the running best
  starts at the first element and is replaced only by an element with a strictly smaller
  key, so the first element among those with the smallest key is returned. Both programs
  call \<^verbatim>\<open>min\<close> only behind a test that the list is not empty.
\<close>

fun min_loop :: "('a \<Rightarrow> 'k::linorder) \<Rightarrow> 'a \<Rightarrow> 'a list \<Rightarrow> 'a" where
  "min_loop k best [] = best"
| "min_loop k best (x # xs) = min_loop k (if k x < k best then x else best) xs"

section \<open>The availability evaluator of room_checker.py\<close>

fun availability_loop :: "event list \<Rightarrow> datetime \<Rightarrow> bool" where
  "availability_loop [] current_time = True"
| "availability_loop (e # es) current_time =
     (if ev_start e \<le> current_time \<and> current_time \<le> ev_end e then False
      else availability_loop es current_time)"

definition is_room_available_now :: "event list \<Rightarrow> datetime \<Rightarrow> bool" where
  "is_room_available_now events current_time =
     (if events = [] then True else availability_loop events current_time)"

fun future_events_loop :: "event list \<Rightarrow> datetime \<Rightarrow> event list \<Rightarrow> event list" where
  "future_events_loop [] current_time future_events = future_events"
| "future_events_loop (e # es) current_time future_events =
     future_events_loop es current_time
       (if ev_start e > current_time \<and> date_of (ev_start e) = date_of current_time
        then future_events @ [e] else future_events)"

definition get_next_event :: "event list \<Rightarrow> datetime \<Rightarrow> event option" where
  "get_next_event events current_time =
     (if events = [] then None
      else case future_events_loop events current_time [] of
             [] \<Rightarrow> None
           | x # rest \<Rightarrow> Some (min_loop ev_start x rest))"

definition get_available_duration :: "event list \<Rightarrow> datetime \<Rightarrow> pyfloat" where
  "get_available_duration events current_time =
     (case get_next_event events current_time of
        Some next_event \<Rightarrow> minutes (ev_start next_event - current_time)
      | None \<Rightarrow> Inf)"

fun current_event_loop :: "event list \<Rightarrow> datetime \<Rightarrow> datetime option" where
  "current_event_loop [] current_time = None"
| "current_event_loop (e # es) current_time =
     (if ev_start e \<le> current_time \<and> current_time \<le> ev_end e then Some (ev_end e)
      else current_event_loop es current_time)"

fun next_event_after_loop ::
  "event list \<Rightarrow> datetime \<Rightarrow> date \<Rightarrow> event option \<Rightarrow> event option" where
  "next_event_after_loop [] current_event_end current_date next_event_after = next_event_after"
| "next_event_after_loop (e # es) current_event_end current_date next_event_after =
     next_event_after_loop es current_event_end current_date
       (if ev_start e \<ge> current_event_end \<and> date_of (ev_start e) = current_date
        then (case next_event_after of
                None \<Rightarrow> Some e
              | Some n \<Rightarrow> if ev_start e < ev_start n then Some e else Some n)
        else next_event_after)"

definition get_next_availability :: "event list \<Rightarrow> datetime \<Rightarrow> (datetime \<times> pyfloat) option" where
  "get_next_availability events current_time =
     (let current_date = date_of current_time
      in case current_event_loop events current_time of
           None \<Rightarrow> None
         | Some current_event_end \<Rightarrow>
             if date_of current_event_end \<noteq> current_date then None
             else Some (current_event_end,
                        case next_event_after_loop events current_event_end current_date None of
                          Some next_event_after \<Rightarrow>
                            minutes (ev_start next_event_after - current_event_end)
                        | None \<Rightarrow> Inf))"

section \<open>The availability evaluator of celcat_flask_app.py\<close>

definition is_room_available :: "event list \<Rightarrow> datetime \<Rightarrow> bool" where
  "is_room_available events check_time =
     (if events = [] then True else availability_loop events check_time)"

definition get_next_event_today :: "event list \<Rightarrow> datetime \<Rightarrow> event option" where
  "get_next_event_today events check_time =
     (if events = [] then None
      else case filter (\<lambda>e. ev_start e > check_time
                              \<and> date_of (ev_start e) = date_of check_time) events of
             x # rest \<Rightarrow> Some (min_loop ev_start x rest)
           | [] \<Rightarrow> None)"

definition get_available_duration_flask :: "event list \<Rightarrow> datetime \<Rightarrow> pyfloat" where
  "get_available_duration_flask events check_time =
     (case get_next_event_today events check_time of
        None \<Rightarrow> Inf
      | Some next_event \<Rightarrow> minutes (ev_start next_event - check_time))"

record next_avail =
  n_avail_time :: datetime
  n_duration :: pyfloat

definition get_next_availability_flask :: "event list \<Rightarrow> datetime \<Rightarrow> next_avail option" where
  "get_next_availability_flask events check_time =
     (if events = [] then None
      else let check_date = date_of check_time
           in case current_event_loop events check_time of
                None \<Rightarrow> None
              | Some current_end \<Rightarrow>
                  if date_of current_end \<noteq> check_date then None
                  else Some \<lparr>n_avail_time = current_end,
                              n_duration =
                                (case filter (\<lambda>e. ev_start e \<ge> current_end
                                                  \<and> date_of (ev_start e) = check_date) events of
                                   x # rest \<Rightarrow>
                                     minutes (ev_start (min_loop ev_start x rest) - current_end)
                                 | [] \<Rightarrow> Inf)\<rparr>)"

section \<open>Decoded payloads\<close>

text \<open>
  \<^verbatim>\<open>response.json()\<close> returns whatever the body decodes to: \<^verbatim>\<open>None\<close>, a boolean, a
  number, a string, a list or a dictionary (here the list of its items, in order, with
  distinct keys). Nothing in the two programs checks that it is a list of events.
\<close>

datatype json =
  JNull | JBool bool | JNum rat | JStr string | JList "json list" | JObj "(string \<times> json) list"

text \<open>
  The exceptions of a run: the ones of the \<^verbatim>\<open>requests\<close> library for a connection
  failure, a timeout, a non-success status and an undecodable body, all of them subclasses
  of \<^verbatim>\<open>RequestException\<close>; the built-in ones raised on a value of the wrong shape; and
  \<^verbatim>\<open>KeyboardInterrupt\<close>. The library has its \<^verbatim>\<open>JSONDecodeError\<close> since version 2.27;
  before that \<^verbatim>\<open>response.json()\<close> raises a \<^verbatim>\<open>ValueError\<close> on an undecodable body.
\<close>

datatype exn =
  ConnectionError | Timeout | HTTPError | JSONDecodeError
  | ValueError | TypeError | KeyError | KeyboardInterrupt

fun is_RequestException :: "exn \<Rightarrow> bool" where
  "is_RequestException ConnectionError = True"
| "is_RequestException Timeout = True"
| "is_RequestException HTTPError = True"
| "is_RequestException JSONDecodeError = True"
| "is_RequestException _ = False"

text \<open>Truth value of a decoded value, as \<^verbatim>\<open>not events\<close> tests it.\<close>

fun truthy :: "json \<Rightarrow> bool" where
  "truthy JNull = False"
| "truthy (JBool b) = b"
| "truthy (JNum n) = (n \<noteq> 0)"
| "truthy (JStr s) = (s \<noteq> [])"
| "truthy (JList xs) = (xs \<noteq> [])"
| "truthy (JObj items) = (items \<noteq> [])"

text \<open>
  The values a \<^verbatim>\<open>for\<close> loop over a decoded value visits: the elements of a list, the
  keys of a dictionary, the characters of a string; the other values are not iterable.
\<close>

fun iterate :: "json \<Rightarrow> exn + json list" where
  "iterate (JList xs) = Inr xs"
| "iterate (JObj items) = Inr (map (\<lambda>item. JStr (fst item)) items)"
| "iterate (JStr s) = Inr (map (\<lambda>c. JStr [c]) s)"
| "iterate _ = Inl TypeError"

text \<open>\<^verbatim>\<open>event[key]\<close> with a string key: only a dictionary has such an item.\<close>

fun subscript :: "json \<Rightarrow> string \<Rightarrow> exn + json" where
  "subscript (JObj items) k = (case map_of items k of None \<Rightarrow> Inl KeyError | Some v \<Rightarrow> Inr v)"
| "subscript _ k = Inl TypeError"

text \<open>
  \<^verbatim>\<open>datetime.fromisoformat\<close> is a function of the standard library; it is a parameter
  here, giving for a string the datetime it denotes, or \<open>None\<close> where the function raises
  \<^verbatim>\<open>ValueError\<close>. On a value that is not a string it raises \<^verbatim>\<open>TypeError\<close>.
\<close>

type_synonym isoformat = "string \<Rightarrow> datetime option"

fun parse :: "isoformat \<Rightarrow> json \<Rightarrow> exn + datetime" where
  "parse fromisoformat (JStr s) =
     (case fromisoformat s of None \<Rightarrow> Inl ValueError | Some d \<Rightarrow> Inr d)"
| "parse fromisoformat _ = Inl TypeError"

text \<open>\<^verbatim>\<open>datetime.fromisoformat(event['start'])\<close> and the same for \<^verbatim>\<open>'end'\<close>.\<close>

definition event_start :: "isoformat \<Rightarrow> json \<Rightarrow> exn + datetime" where
  "event_start fromisoformat ev =
     (case subscript ev ''start'' of Inl e \<Rightarrow> Inl e | Inr v \<Rightarrow> parse fromisoformat v)"

definition event_end :: "isoformat \<Rightarrow> json \<Rightarrow> exn + datetime" where
  "event_end fromisoformat ev =
     (case subscript ev ''end'' of Inl e \<Rightarrow> Inl e | Inr v \<Rightarrow> parse fromisoformat v)"

text \<open>
  A payload that is a list of events of the data model, and the events it holds: every
  element is a dictionary whose \<^verbatim>\<open>'start'\<close> and \<^verbatim>\<open>'end'\<close> are strings that
  \<^verbatim>\<open>fromisoformat\<close> reads.
\<close>

definition decode_event :: "isoformat \<Rightarrow> json \<Rightarrow> event option" where
  "decode_event fromisoformat ev =
     (case event_start fromisoformat ev of
        Inl e \<Rightarrow> None
      | Inr s \<Rightarrow> (case event_end fromisoformat ev of
                    Inl e \<Rightarrow> None
                  | Inr e \<Rightarrow> Some \<lparr>ev_start = s, ev_end = e\<rparr>))"

fun decode_list :: "isoformat \<Rightarrow> json list \<Rightarrow> event list option" where
  "decode_list fromisoformat [] = Some []"
| "decode_list fromisoformat (ev # rest) =
     (case decode_event fromisoformat ev of
        None \<Rightarrow> None
      | Some e \<Rightarrow> map_option (Cons e) (decode_list fromisoformat rest))"

fun decode :: "isoformat \<Rightarrow> json \<Rightarrow> event list option" where
  "decode fromisoformat (JList xs) = decode_list fromisoformat xs"
| "decode fromisoformat _ = None"

section \<open>The evaluator of room_checker.py on a decoded payload\<close>

text \<open>
  The functions of the evaluator as they run on the value that \<^verbatim>\<open>response.json()\<close>
  returned, with the exception Python raises where the value has not the shape of a list
  of events. An event kept for later is kept with the start that was read from it, which
  reading it again gives again.
\<close>

fun availability_loop_json :: "isoformat \<Rightarrow> json list \<Rightarrow> datetime \<Rightarrow> exn + bool" where
  "availability_loop_json fromisoformat [] current_time = Inr True"
| "availability_loop_json fromisoformat (event # rest) current_time =
     (case event_start fromisoformat event of
        Inl e \<Rightarrow> Inl e
      | Inr start \<Rightarrow>
          (case event_end fromisoformat event of
             Inl e \<Rightarrow> Inl e
           | Inr end_time \<Rightarrow>
               if start \<le> current_time \<and> current_time \<le> end_time then Inr False
               else availability_loop_json fromisoformat rest current_time))"

definition is_room_available_now_json :: "isoformat \<Rightarrow> json \<Rightarrow> datetime \<Rightarrow> exn + bool" where
  "is_room_available_now_json fromisoformat events current_time =
     (if \<not> truthy events then Inr True
      else case iterate events of
             Inl e \<Rightarrow> Inl e
           | Inr xs \<Rightarrow> availability_loop_json fromisoformat xs current_time)"

fun future_events_loop_json ::
  "isoformat \<Rightarrow> json list \<Rightarrow> datetime \<Rightarrow> (json \<times> datetime) list \<Rightarrow>
   exn + (json \<times> datetime) list" where
  "future_events_loop_json fromisoformat [] current_time future_events = Inr future_events"
| "future_events_loop_json fromisoformat (event # rest) current_time future_events =
     (case event_start fromisoformat event of
        Inl e \<Rightarrow> Inl e
      | Inr start \<Rightarrow>
          future_events_loop_json fromisoformat rest current_time
            (if start > current_time \<and> date_of start = date_of current_time
             then future_events @ [(event, start)] else future_events))"

definition get_next_event_json ::
  "isoformat \<Rightarrow> json \<Rightarrow> datetime \<Rightarrow> exn + (json \<times> datetime) option" where
  "get_next_event_json fromisoformat events current_time =
     (if \<not> truthy events then Inr None
      else case iterate events of
             Inl e \<Rightarrow> Inl e
           | Inr xs \<Rightarrow>
               (case future_events_loop_json fromisoformat xs current_time [] of
                  Inl e \<Rightarrow> Inl e
                | Inr [] \<Rightarrow> Inr None
                | Inr (x # rest) \<Rightarrow> Inr (Some (min_loop snd x rest))))"

definition get_available_duration_json :: "isoformat \<Rightarrow> json \<Rightarrow> datetime \<Rightarrow> exn + pyfloat" where
  "get_available_duration_json fromisoformat events current_time =
     (case get_next_event_json fromisoformat events current_time of
        Inl e \<Rightarrow> Inl e
      | Inr (Some next_event) \<Rightarrow> Inr (minutes (snd next_event - current_time))
      | Inr None \<Rightarrow> Inr Inf)"

fun current_event_loop_json ::
  "isoformat \<Rightarrow> json list \<Rightarrow> datetime \<Rightarrow> exn + datetime option" where
  "current_event_loop_json fromisoformat [] current_time = Inr None"
| "current_event_loop_json fromisoformat (event # rest) current_time =
     (case event_start fromisoformat event of
        Inl e \<Rightarrow> Inl e
      | Inr start \<Rightarrow>
          (case event_end fromisoformat event of
             Inl e \<Rightarrow> Inl e
           | Inr end_time \<Rightarrow>
               if start \<le> current_time \<and> current_time \<le> end_time then Inr (Some end_time)
               else current_event_loop_json fromisoformat rest current_time))"

fun next_event_after_loop_json ::
  "isoformat \<Rightarrow> json list \<Rightarrow> datetime \<Rightarrow> date \<Rightarrow> (json \<times> datetime) option \<Rightarrow>
   exn + (json \<times> datetime) option" where
  "next_event_after_loop_json fromisoformat [] current_event_end current_date next_event_after =
     Inr next_event_after"
| "next_event_after_loop_json fromisoformat (event # rest) current_event_end current_date
     next_event_after =
     (case event_start fromisoformat event of
        Inl e \<Rightarrow> Inl e
      | Inr start \<Rightarrow>
          next_event_after_loop_json fromisoformat rest current_event_end current_date
            (if start \<ge> current_event_end \<and> date_of start = current_date
             then (case next_event_after of
                     None \<Rightarrow> Some (event, start)
                   | Some n \<Rightarrow> if start < snd n then Some (event, start) else Some n)
             else next_event_after))"

definition get_next_availability_json ::
  "isoformat \<Rightarrow> json \<Rightarrow> datetime \<Rightarrow> exn + (datetime \<times> pyfloat) option" where
  "get_next_availability_json fromisoformat events current_time =
     (let current_date = date_of current_time
      in case iterate events of
           Inl e \<Rightarrow> Inl e
         | Inr xs \<Rightarrow>
             (case current_event_loop_json fromisoformat xs current_time of
                Inl e \<Rightarrow> Inl e
              | Inr None \<Rightarrow> Inr None
              | Inr (Some current_event_end) \<Rightarrow>
                  if date_of current_event_end \<noteq> current_date then Inr None
                  else (case next_event_after_loop_json fromisoformat xs
                               current_event_end current_date None of
                          Inl e \<Rightarrow> Inl e
                        | Inr (Some next_event_after) \<Rightarrow>
                            Inr (Some (current_event_end,
                                       minutes (snd next_event_after - current_event_end)))
                        | Inr None \<Rightarrow> Inr (Some (current_event_end, Inf)))))"

section \<open>The evaluator of celcat_flask_app.py on a decoded payload\<close>

definition is_room_available_json :: "isoformat \<Rightarrow> json \<Rightarrow> datetime \<Rightarrow> exn + bool" where
  "is_room_available_json fromisoformat events check_time =
     (if \<not> truthy events then Inr True
      else case iterate events of
             Inl e \<Rightarrow> Inl e
           | Inr xs \<Rightarrow> availability_loop_json fromisoformat xs check_time)"

text \<open>
  A list comprehension \<^verbatim>\<open>[e for e in events if ...]\<close> whose condition reads the start of
  \<open>e\<close>: the events that pass, in order, unless reading a start raises.
\<close>

fun comprehension_json ::
  "isoformat \<Rightarrow> (datetime \<Rightarrow> bool) \<Rightarrow> json list \<Rightarrow> exn + (json \<times> datetime) list" where
  "comprehension_json fromisoformat cond [] = Inr []"
| "comprehension_json fromisoformat cond (e # rest) =
     (case event_start fromisoformat e of
        Inl err \<Rightarrow> Inl err
      | Inr start \<Rightarrow>
          (case comprehension_json fromisoformat cond rest of
             Inl err \<Rightarrow> Inl err
           | Inr future \<Rightarrow> Inr (if cond start then (e, start) # future else future)))"

definition get_next_event_today_json ::
  "isoformat \<Rightarrow> json \<Rightarrow> datetime \<Rightarrow> exn + (json \<times> datetime) option" where
  "get_next_event_today_json fromisoformat events check_time =
     (if \<not> truthy events then Inr None
      else case iterate events of
             Inl e \<Rightarrow> Inl e
           | Inr xs \<Rightarrow>
               (case comprehension_json fromisoformat
                       (\<lambda>start. start > check_time \<and> date_of start = date_of check_time) xs of
                  Inl e \<Rightarrow> Inl e
                | Inr (x # rest) \<Rightarrow> Inr (Some (min_loop snd x rest))
                | Inr [] \<Rightarrow> Inr None))"

definition get_available_duration_flask_json ::
  "isoformat \<Rightarrow> json \<Rightarrow> datetime \<Rightarrow> exn + pyfloat" where
  "get_available_duration_flask_json fromisoformat events check_time =
     (case get_next_event_today_json fromisoformat events check_time of
        Inl e \<Rightarrow> Inl e
      | Inr None \<Rightarrow> Inr Inf
      | Inr (Some next_event) \<Rightarrow> Inr (minutes (snd next_event - check_time)))"

definition get_next_availability_flask_json ::
  "isoformat \<Rightarrow> json \<Rightarrow> datetime \<Rightarrow> exn + next_avail option" where
  "get_next_availability_flask_json fromisoformat events check_time =
     (if \<not> truthy events then Inr None
      else let check_date = date_of check_time
           in case iterate events of
                Inl e \<Rightarrow> Inl e
              | Inr xs \<Rightarrow>
                  (case current_event_loop_json fromisoformat xs check_time of
                     Inl e \<Rightarrow> Inl e
                   | Inr None \<Rightarrow> Inr None
                   | Inr (Some current_end) \<Rightarrow>
                       if date_of current_end \<noteq> check_date then Inr None
                       else (case comprehension_json fromisoformat
                                    (\<lambda>start. start \<ge> current_end \<and> date_of start = check_date)
                                    xs of
                               Inl e \<Rightarrow> Inl e
                             | Inr (x # rest) \<Rightarrow>
                                 Inr (Some \<lparr>n_avail_time = current_end,
                                            n_duration =
                                              minutes (snd (min_loop snd x rest) - current_end)\<rparr>)
                             | Inr [] \<Rightarrow>
                                 Inr (Some \<lparr>n_avail_time = current_end, n_duration = Inf\<rparr>))))"

section \<open>Fetching a room's schedule\<close>

text \<open>
  Room identifiers are Python strings, compared code point by code point; every identifier
  of the configured list lies in Latin-1, so a character is its code point.
\<close>

type_synonym room = string

definition A29_ROOMS :: "room list" where
  "A29_ROOMS =
     [''A29/ Amphith'' @ [CHR 0xE9, CHR 0xE2] @ ''tre A'',
      ''A29/ Amphith'' @ [CHR 0xE9, CHR 0xE2] @ ''tre B'',
      ''A29/ Amphith'' @ [CHR 0xE9, CHR 0xE2] @ ''tre C'',
      ''A29/ Amphith'' @ [CHR 0xE9, CHR 0xE2] @ ''tre D'',
      ''A29/ Amphith'' @ [CHR 0xE9, CHR 0xE2] @ ''tre E'',
      ''A29/ Amphith'' @ [CHR 0xE9, CHR 0xE2] @ ''tre F'',
      ''A29/ Amphith'' @ [CHR 0xE9, CHR 0xE2] @ ''tre G'',
      ''A29/ Salle 001'',
      ''A29/ Salle 101'',
      ''A29/ Salle 102'',
      ''A29/ Salle 103'',
      ''A29/ Salle 104'',
      ''A29/ Salle 105'',
      ''A29/ Salle 106'',
      ''A29/ Salle 107'']"

text \<open>
  The body of the \<^verbatim>\<open>try\<close> block in \<^verbatim>\<open>get_room_schedule\<close> posts one request, calls
  \<^verbatim>\<open>raise_for_status\<close> and decodes the body. What the service answers is not part of the
  program; it is a parameter \<open>post\<close> giving, for each room, the outcome of that block: the
  value the body decodes to, or the exception raised.
\<close>

datatype attempt = is_Returns: Returns json | Raises exn

text \<open>The lines the command-line program prints about a failed fetch.\<close>

datatype line = Error_fetching room exn | Could_not_fetch room

text \<open>
  \<^verbatim>\<open>get_room_schedule\<close> of room_checker.py returns the decoded value as it is. It catches
  \<^verbatim>\<open>RequestException\<close> only, prints a line to the error stream and returns \<^verbatim>\<open>None\<close>
  (\<open>JNull\<close>); any other exception leaves the function.
\<close>

definition get_room_schedule :: "(room \<Rightarrow> attempt) \<Rightarrow> room \<Rightarrow> exn + (json \<times> line list)" where
  "get_room_schedule post room_name =
     (case post room_name of
        Returns v \<Rightarrow> Inr (v, [])
      | Raises e \<Rightarrow>
          if is_RequestException e then Inr (JNull, [Error_fetching room_name e])
          else Inl e)"

text \<open>
  The fetch of a room failed: \<^verbatim>\<open>get_room_schedule\<close> returned \<^verbatim>\<open>None\<close>, which is what
  the loop over the rooms tests.
\<close>

definition fetch_failed :: "(room \<Rightarrow> attempt) \<Rightarrow> room \<Rightarrow> bool" where
  "fetch_failed post room_name =
     (case get_room_schedule post room_name of
        Inl e \<Rightarrow> False
      | Inr (events, err) \<Rightarrow> events = JNull)"

text \<open>\<^verbatim>\<open>get_room_schedule\<close> of celcat_flask_app.py has a bare \<^verbatim>\<open>except\<close>.\<close>

definition get_room_schedule_flask :: "(room \<Rightarrow> attempt) \<Rightarrow> room \<Rightarrow> json" where
  "get_room_schedule_flask post room_name =
     (case post room_name of
        Returns v \<Rightarrow> v
      | Raises e \<Rightarrow> JNull)"

section \<open>The report of room_checker.py\<close>

type_synonym available_entry = "room \<times> json \<times> pyfloat"
type_synonym occupied_entry = "room \<times> json \<times> datetime \<times> pyfloat"

text \<open>
  The body of the loop over the rooms, on the two lists it appends to and the printed
  lines, and the loop. An exception that leaves the body ends the loop.
\<close>

definition room_step ::
  "isoformat \<Rightarrow> (room \<Rightarrow> attempt) \<Rightarrow> datetime \<Rightarrow> room \<Rightarrow>
   available_entry list \<times> occupied_entry list \<times> line list \<Rightarrow>
   exn + (available_entry list \<times> occupied_entry list \<times> line list)" where
  "room_step fromisoformat post now room st =
     (case st of (available_rooms, occupied_rooms, out) \<Rightarrow>
        (case get_room_schedule post room of
           Inl e \<Rightarrow> Inl e
         | Inr (events, err) \<Rightarrow>
             if events = JNull
             then Inr (available_rooms, occupied_rooms, out @ err @ [Could_not_fetch room])
             else (case is_room_available_now_json fromisoformat events now of
                     Inl e \<Rightarrow> Inl e
                   | Inr is_available \<Rightarrow>
                       if is_available
                       then (case get_available_duration_json fromisoformat events now of
                               Inl e \<Rightarrow> Inl e
                             | Inr duration \<Rightarrow>
                                 Inr (available_rooms @ [(room, events, duration)],
                                      occupied_rooms, out @ err))
                       else (case get_next_availability_json fromisoformat events now of
                               Inl e \<Rightarrow> Inl e
                             | Inr (Some next_avail) \<Rightarrow>
                                 Inr (available_rooms,
                                      occupied_rooms
                                        @ [(room, events, fst next_avail, snd next_avail)],
                                      out @ err)
                             | Inr None \<Rightarrow> Inr (available_rooms, occupied_rooms, out @ err)))))"

fun rooms_loop ::
  "isoformat \<Rightarrow> (room \<Rightarrow> attempt) \<Rightarrow> datetime \<Rightarrow> room list \<Rightarrow>
   available_entry list \<times> occupied_entry list \<times> line list \<Rightarrow>
   exn + (available_entry list \<times> occupied_entry list \<times> line list)" where
  "rooms_loop fromisoformat post now [] st = Inr st"
| "rooms_loop fromisoformat post now (room # rest) st =
     (case room_step fromisoformat post now room st of
        Inl e \<Rightarrow> Inl e
      | Inr st' \<Rightarrow> rooms_loop fromisoformat post now rest st')"

text \<open>
  \<^verbatim>\<open>list.sort(key=...)\<close> is a stable sort by the key, and so is \<open>sort_key\<close>. A key that
  is a tuple is compared component by component, first component first.
\<close>

definition available_key :: "available_entry \<Rightarrow> pyfloat \<times> room" where
  "available_key x = (case x of (room, events, duration) \<Rightarrow> (neg duration, room))"

definition occupied_key :: "occupied_entry \<Rightarrow> datetime \<times> pyfloat \<times> room" where
  "occupied_key x =
     (case x of (room, events, avail_time, duration) \<Rightarrow> (avail_time, neg duration, room))"

text \<open>
  The loop that prints the available rooms calls \<^verbatim>\<open>get_next_event\<close> for each of them
  and prints the start of the event it returns, or that the room is free for the rest of
  the day.
\<close>

fun print_available ::
  "isoformat \<Rightarrow> available_entry list \<Rightarrow> datetime \<Rightarrow> exn + (room \<times> datetime option) list" where
  "print_available fromisoformat [] now = Inr []"
| "print_available fromisoformat (x # rest) now =
     (case get_next_event_json fromisoformat (fst (snd x)) now of
        Inl e \<Rightarrow> Inl e
      | Inr next_event \<Rightarrow>
          (case print_available fromisoformat rest now of
             Inl e \<Rightarrow> Inl e
           | Inr printed \<Rightarrow> Inr ((fst x, map_option snd next_event) # printed)))"

text \<open>
  What a run prints: the available rooms in their sorted order, each with the time until
  which it is available, the section of the next rooms to become available when it is
  printed (\<open>None\<close> when it is not), the two numbers of the summary line, and the lines
  about failed fetches.
\<close>

record cli_report =
  available_section :: "available_entry list"
  available_until :: "(room \<times> datetime option) list"
  next_section :: "occupied_entry list option"
  summary :: "nat \<times> nat"
  fetch_lines :: "line list"

definition check_rooms ::
  "isoformat \<Rightarrow> room list \<Rightarrow> (room \<Rightarrow> attempt) \<Rightarrow> datetime \<Rightarrow> exn + cli_report" where
  "check_rooms fromisoformat rooms post now =
     (case rooms_loop fromisoformat post now rooms ([], [], []) of
        Inl e \<Rightarrow> Inl e
      | Inr (available_rooms, occupied_rooms, out) \<Rightarrow>
          let available_rooms = sort_key available_key available_rooms
          in case print_available fromisoformat available_rooms now of
               Inl e \<Rightarrow> Inl e
             | Inr printed \<Rightarrow>
                 Inr \<lparr>available_section = available_rooms,
                      available_until = printed,
                      next_section =
                        (if length available_rooms \<le> 2 \<and> occupied_rooms \<noteq> []
                         then Some (take 2 (sort_key occupied_key occupied_rooms))
                         else None),
                      summary = (length available_rooms, length occupied_rooms),
                      fetch_lines = out\<rparr>)"


section \<open>The report of celcat_flask_app.py\<close>

record available_item =
  a_room :: room
  a_events :: json
  a_duration :: pyfloat

record occupied_item =
  o_room :: room
  o_avail_time :: datetime
  o_duration :: pyfloat

definition room_step_flask ::
  "isoformat \<Rightarrow> (room \<Rightarrow> attempt) \<Rightarrow> datetime \<Rightarrow> room \<Rightarrow>
   available_item list \<times> occupied_item list \<Rightarrow>
   exn + (available_item list \<times> occupied_item list)" where
  "room_step_flask fromisoformat post check_time room st =
     (case st of (available_rooms, occupied_rooms) \<Rightarrow>
        (let events = get_room_schedule_flask post room
         in if events = JNull then Inr (available_rooms, occupied_rooms)
            else (case is_room_available_json fromisoformat events check_time of
                    Inl e \<Rightarrow> Inl e
                  | Inr is_available \<Rightarrow>
                      if is_available
                      then (case get_available_duration_flask_json fromisoformat events
                                   check_time of
                              Inl e \<Rightarrow> Inl e
                            | Inr duration \<Rightarrow>
                                Inr (available_rooms
                                       @ [\<lparr>a_room = room, a_events = events,
                                            a_duration = duration\<rparr>],
                                     occupied_rooms))
                      else (case get_next_availability_flask_json fromisoformat events
                                   check_time of
                              Inl e \<Rightarrow> Inl e
                            | Inr (Some next_avail) \<Rightarrow>
                                Inr (available_rooms,
                                     occupied_rooms
                                       @ [\<lparr>o_room = room,
                                            o_avail_time = n_avail_time next_avail,
                                            o_duration = n_duration next_avail\<rparr>])
                            | Inr None \<Rightarrow> Inr (available_rooms, occupied_rooms)))))"

fun rooms_loop_flask ::
  "isoformat \<Rightarrow> (room \<Rightarrow> attempt) \<Rightarrow> datetime \<Rightarrow> room list \<Rightarrow>
   available_item list \<times> occupied_item list \<Rightarrow>
   exn + (available_item list \<times> occupied_item list)" where
  "rooms_loop_flask fromisoformat post check_time [] st = Inr st"
| "rooms_loop_flask fromisoformat post check_time (room # rest) st =
     (case room_step_flask fromisoformat post check_time room st of
        Inl e \<Rightarrow> Inl e
      | Inr st' \<Rightarrow> rooms_loop_flask fromisoformat post check_time rest st')"

text \<open>The two sorts of \<^verbatim>\<open>check_availability\<close>.\<close>

definition sort_available_flask :: "available_item list \<Rightarrow> available_item list" where
  "sort_available_flask available_rooms =
     sort_key (\<lambda>x. (neg (a_duration x), a_room x)) available_rooms"

definition sort_occupied_flask :: "occupied_item list \<Rightarrow> occupied_item list" where
  "sort_occupied_flask occupied_rooms =
     sort_key (\<lambda>x. (o_avail_time x, neg (o_duration x), o_room x)) occupied_rooms"

text \<open>
  The entries of \<^verbatim>\<open>'available'\<close>: each room with the start of its next event of the day,
  from which its text is written.
\<close>

fun available_info ::
  "isoformat \<Rightarrow> available_item list \<Rightarrow> datetime \<Rightarrow> exn + (room \<times> datetime option) list" where
  "available_info fromisoformat [] check_time = Inr []"
| "available_info fromisoformat (item # rest) check_time =
     (case get_next_event_today_json fromisoformat (a_events item) check_time of
        Inl e \<Rightarrow> Inl e
      | Inr next_event \<Rightarrow>
          (case available_info fromisoformat rest check_time of
             Inl e \<Rightarrow> Inl e
           | Inr infos \<Rightarrow> Inr ((a_room item, map_option snd next_event) # infos)))"

text \<open>
  The result of the query endpoint. An entry of \<^verbatim>\<open>'next_available'\<close> is the room with
  the time it becomes free and the length of the free window. An exception ends the query.
\<close>

record flask_result =
  available :: "(room \<times> datetime option) list"
  next_available :: "(room \<times> datetime \<times> pyfloat) list"
  summary_flask :: "nat \<times> nat"

definition check_rooms_flask ::
  "isoformat \<Rightarrow> room list \<Rightarrow> (room \<Rightarrow> attempt) \<Rightarrow> datetime \<Rightarrow> exn + flask_result" where
  "check_rooms_flask fromisoformat rooms post check_time =
     (case rooms_loop_flask fromisoformat post check_time rooms ([], []) of
        Inl e \<Rightarrow> Inl e
      | Inr (available_rooms, occupied_rooms) \<Rightarrow>
          let available_rooms = sort_available_flask available_rooms;
              occupied_rooms = sort_occupied_flask occupied_rooms
          in case available_info fromisoformat available_rooms check_time of
               Inl e \<Rightarrow> Inl e
             | Inr infos \<Rightarrow>
                 Inr \<lparr>available = infos,
                      next_available =
                        (if length available_rooms \<le> 2
                         then map (\<lambda>item. (o_room item, o_avail_time item, o_duration item))
                                (take 2 occupied_rooms)
                         else []),
                      summary_flask = (length available_rooms, length occupied_rooms)\<rparr>)"

definition check_availability ::
  "isoformat \<Rightarrow> (room \<Rightarrow> attempt) \<Rightarrow> datetime \<Rightarrow> exn + flask_result" where
  "check_availability fromisoformat post check_time =
     check_rooms_flask fromisoformat A29_ROOMS post check_time"

section \<open>Occupancy at an instant\<close>

lemma availability_loop_iff:
  "availability_loop events t = (\<not> (\<exists>e \<in> set events. ev_start e \<le> t \<and> t \<le> ev_end e))"
  by (induction events) auto

text \<open>
  Claim C1. A room is available at \<open>t\<close> exactly when no event of its list has
  \<open>start \<le> t \<le> end\<close>, both ends included. This holds for the evaluator of the command-line
  program and for the one of the web application.
\<close>

theorem is_available_iff_no_covering_event:
  "is_room_available_now events t = (\<not> (\<exists>e \<in> set events. ev_start e \<le> t \<and> t \<le> ev_end e))
   \<and> is_room_available events t = (\<not> (\<exists>e \<in> set events. ev_start e \<le> t \<and> t \<le> ev_end e))"
  by (cases events) (simp_all add: is_room_available_now_def is_room_available_def availability_loop_iff del: availability_loop.simps)

text \<open>
  Two back-to-back events, 09:00 to 10:00 and 10:00 to 11:00 (in microseconds of the day),
  at the shared boundary 10:00: the room is occupied.
\<close>

theorem is_available_iff_no_covering_event_witness:
  "\<not> is_room_available_now
       [\<lparr>ev_start = 32400000000, ev_end = 36000000000\<rparr>,
        \<lparr>ev_start = 36000000000, ev_end = 39600000000\<rparr>] 36000000000
   \<and> \<not> is_room_available
       [\<lparr>ev_start = 32400000000, ev_end = 36000000000\<rparr>,
        \<lparr>ev_start = 36000000000, ev_end = 39600000000\<rparr>] 36000000000
   \<and> is_room_available_now
       [\<lparr>ev_start = 32400000000, ev_end = 36000000000\<rparr>] 36000000001"
  using is_available_iff_no_covering_event
          [of "[\<lparr>ev_start = 32400000000, ev_end = 36000000000\<rparr>,
                \<lparr>ev_start = 36000000000, ev_end = 39600000000\<rparr>]" 36000000000]
        is_available_iff_no_covering_event
          [of "[\<lparr>ev_start = 32400000000, ev_end = 36000000000\<rparr>]" 36000000001]
  by simp

section \<open>Minimum, filters and loops\<close>

lemma min_loop_mem: "min_loop k b xs \<in> set (b # xs)"
  by (induction xs arbitrary: b) auto

lemma min_loop_le_best: "k (min_loop k b xs) \<le> k b"
proof (induction xs arbitrary: b)
  case Nil
  show ?case by simp
next
  case (Cons x xs)
  have "k (min_loop k (if k x < k b then x else b) xs) \<le> k (if k x < k b then x else b)"
    by (rule Cons.IH)
  also have "\<dots> \<le> k b" by auto
  finally show ?case by simp
qed

lemma min_loop_le: "y \<in> set (b # xs) \<Longrightarrow> k (min_loop k b xs) \<le> k y"
proof (induction xs arbitrary: b)
  case Nil
  then show ?case by simp
next
  case (Cons x xs)
  let ?b = "if k x < k b then x else b"
  from Cons.prems consider "y = b" | "y = x" | "y \<in> set xs" by auto
  then show ?case
  proof cases
    case 1
    then show ?thesis using min_loop_le_best [of k b "x # xs"] by simp
  next
    case 2
    have "k (min_loop k ?b xs) \<le> k ?b" by (rule min_loop_le_best)
    also have "\<dots> \<le> k x" by auto
    finally show ?thesis using 2 by simp
  next
    case 3
    then have "y \<in> set (?b # xs)" by simp
    from Cons.IH [OF this] show ?thesis by simp
  qed
qed

lemma min_loop_key: "k (min_loop k b xs) = Min (k ` set (b # xs))"
proof (rule sym, rule Min_eqI)
  show "finite (k ` set (b # xs))" by simp
  show "\<And>y. y \<in> k ` set (b # xs) \<Longrightarrow> k (min_loop k b xs) \<le> y"
    using min_loop_le [of _ b xs k] by auto
  show "k (min_loop k b xs) \<in> k ` set (b # xs)"
    using min_loop_mem [of k b xs] by blast
qed

lemma future_events_loop_filter:
  "future_events_loop es t acc =
     acc @ filter (\<lambda>e. ev_start e > t \<and> date_of (ev_start e) = date_of t) es"
  by (induction es arbitrary: acc) auto

lemma next_event_after_loop_filter:
  "next_event_after_loop es E d acc =
     (case acc of
        None \<Rightarrow> (case filter (\<lambda>e. ev_start e \<ge> E \<and> date_of (ev_start e) = d) es of
                   [] \<Rightarrow> None
                 | x # rest \<Rightarrow> Some (min_loop ev_start x rest))
      | Some n \<Rightarrow> Some (min_loop ev_start n (filter (\<lambda>e. ev_start e \<ge> E \<and> date_of (ev_start e) = d) es)))"
  by (induction es arbitrary: acc) (auto split: option.splits list.splits)

lemma current_event_loop_find:
  "current_event_loop es t =
     map_option ev_end (find (\<lambda>e. ev_start e \<le> t \<and> t \<le> ev_end e) es)"
  by (induction es) auto

lemma first_min_filter:
  assumes "filter P es = x # rest"
  shows "min_loop k x rest \<in> set es" and "P (min_loop k x rest)"
    and "\<And>e. e \<in> set es \<Longrightarrow> P e \<Longrightarrow> k (min_loop k x rest) \<le> k e"
proof -
  have "min_loop k x rest \<in> set (filter P es)"
    using min_loop_mem [of k x rest] assms by simp
  then show "min_loop k x rest \<in> set es" and "P (min_loop k x rest)" by simp_all
next
  fix e assume "e \<in> set es" and "P e"
  then have "e \<in> set (x # rest)" using assms [symmetric] by simp
  then show "k (min_loop k x rest) \<le> k e" by (rule min_loop_le)
qed

lemma get_next_event_filter:
  "get_next_event events t =
     (case filter (\<lambda>e. ev_start e > t \<and> date_of (ev_start e) = date_of t) events of
        [] \<Rightarrow> None
      | x # rest \<Rightarrow> Some (min_loop ev_start x rest))"
  by (simp add: get_next_event_def future_events_loop_filter)

lemma get_next_event_today_filter:
  "get_next_event_today events t =
     (case filter (\<lambda>e. ev_start e > t \<and> date_of (ev_start e) = date_of t) events of
        [] \<Rightarrow> None
      | x # rest \<Rightarrow> Some (min_loop ev_start x rest))"
  by (simp add: get_next_event_today_def split: list.splits)

lemma get_next_availability_filter:
  "get_next_availability events t =
     (case find (\<lambda>e. ev_start e \<le> t \<and> t \<le> ev_end e) events of
        None \<Rightarrow> None
      | Some c \<Rightarrow>
          if date_of (ev_end c) \<noteq> date_of t then None
          else Some (ev_end c,
                     case filter (\<lambda>e. ev_start e \<ge> ev_end c
                                       \<and> date_of (ev_start e) = date_of t) events of
                       [] \<Rightarrow> Inf
                     | x # rest \<Rightarrow> minutes (ev_start (min_loop ev_start x rest) - ev_end c)))"
  by (simp add: get_next_availability_def current_event_loop_find next_event_after_loop_filter
      split: option.splits list.splits)

lemma get_next_availability_flask_filter:
  "get_next_availability_flask events t =
     (case find (\<lambda>e. ev_start e \<le> t \<and> t \<le> ev_end e) events of
        None \<Rightarrow> None
      | Some c \<Rightarrow>
          if date_of (ev_end c) \<noteq> date_of t then None
          else Some \<lparr>n_avail_time = ev_end c,
                     n_duration =
                       (case filter (\<lambda>e. ev_start e \<ge> ev_end c
                                         \<and> date_of (ev_start e) = date_of t) events of
                          [] \<Rightarrow> Inf
                        | x # rest \<Rightarrow> minutes (ev_start (min_loop ev_start x rest) - ev_end c))\<rparr>)"
proof (cases "events = []")
  case True
  then show ?thesis by (simp add: get_next_availability_flask_def)
next
  case False
  then show ?thesis
    by (simp add: get_next_availability_flask_def current_event_loop_find
        split: option.splits list.splits)
qed

text \<open>
  Claim C3. The next event of the day is absent exactly when no event starts strictly after
  \<open>t\<close> on the date of \<open>t\<close>; when present it is an event of the list that starts strictly
  after \<open>t\<close> on that date, and no such event starts earlier. The two programs return the
  same event.
\<close>

theorem next_event_is_earliest_later_today:
  "(get_next_event events t = None
      \<longleftrightarrow> \<not> (\<exists>e \<in> set events. ev_start e > t \<and> date_of (ev_start e) = date_of t))
   \<and> (\<forall>n. get_next_event events t = Some n \<longrightarrow>
          n \<in> set events \<and> ev_start n > t \<and> date_of (ev_start n) = date_of t
          \<and> (\<forall>e \<in> set events. ev_start e > t \<and> date_of (ev_start e) = date_of t
                \<longrightarrow> ev_start n \<le> ev_start e))
   \<and> get_next_event_today events t = get_next_event events t"
proof (intro conjI allI impI)
  let ?P = "\<lambda>e. ev_start e > t \<and> date_of (ev_start e) = date_of t"
  show "get_next_event events t = None \<longleftrightarrow> \<not> (\<exists>e \<in> set events. ?P e)"
  proof (cases "filter ?P events")
    case Nil
    then have "\<forall>e \<in> set events. \<not> ?P e" by (simp only: filter_empty_conv)
    with Nil show ?thesis by (simp add: get_next_event_filter)
  next
    case (Cons x rest)
    then have "x \<in> set (filter ?P events)" by simp
    then have "\<exists>e \<in> set events. ?P e" by auto
    with Cons show ?thesis by (simp add: get_next_event_filter)
  qed
  show "get_next_event_today events t = get_next_event events t"
    by (simp add: get_next_event_filter get_next_event_today_filter)
  fix n assume "get_next_event events t = Some n"
  then obtain x rest where f: "filter ?P events = x # rest" and n: "n = min_loop ev_start x rest"
    by (auto simp add: get_next_event_filter split: list.splits)
  show "n \<in> set events" using first_min_filter(1) [OF f] n by simp
  show "ev_start n > t" using first_min_filter(2) [OF f, of ev_start] n by simp
  show "date_of (ev_start n) = date_of t" using first_min_filter(2) [OF f, of ev_start] n by simp
  show "\<forall>e \<in> set events. ?P e \<longrightarrow> ev_start n \<le> ev_start e"
    using first_min_filter(3) [OF f, of _ ev_start] n by blast
qed

text \<open>
  At 10:00 with events starting at 14:00, 08:00, 11:00 and 01:00 of the next day, the next
  event is the one at 11:00; with the event of the next day alone there is none.
\<close>

theorem next_event_is_earliest_later_today_witness:
  "get_next_event
     [\<lparr>ev_start = 50400000000, ev_end = 54000000000\<rparr>,
      \<lparr>ev_start = 28800000000, ev_end = 32400000000\<rparr>,
      \<lparr>ev_start = 39600000000, ev_end = 43200000000\<rparr>,
      \<lparr>ev_start = 90000000000, ev_end = 93600000000\<rparr>] 36000000000
     = Some \<lparr>ev_start = 39600000000, ev_end = 43200000000\<rparr>
   \<and> get_next_event_today
     [\<lparr>ev_start = 50400000000, ev_end = 54000000000\<rparr>,
      \<lparr>ev_start = 28800000000, ev_end = 32400000000\<rparr>,
      \<lparr>ev_start = 39600000000, ev_end = 43200000000\<rparr>,
      \<lparr>ev_start = 90000000000, ev_end = 93600000000\<rparr>] 36000000000
     = Some \<lparr>ev_start = 39600000000, ev_end = 43200000000\<rparr>
   \<and> get_next_event [\<lparr>ev_start = 90000000000, ev_end = 93600000000\<rparr>] 36000000000 = None"
  using next_event_is_earliest_later_today
          [of "[\<lparr>ev_start = 50400000000, ev_end = 54000000000\<rparr>,
                \<lparr>ev_start = 28800000000, ev_end = 32400000000\<rparr>,
                \<lparr>ev_start = 39600000000, ev_end = 43200000000\<rparr>,
                \<lparr>ev_start = 90000000000, ev_end = 93600000000\<rparr>]" 36000000000]
        next_event_is_earliest_later_today
          [of "[\<lparr>ev_start = 90000000000, ev_end = 93600000000\<rparr>]" 36000000000]
  by (simp add: get_next_event_def date_of_def usec_per_day_def)

lemma find_covering_Some:
  "\<not> availability_loop events t \<Longrightarrow> \<exists>c. find (\<lambda>e. ev_start e \<le> t \<and> t \<le> ev_end e) events = Some c"
  by (induction events) auto

lemma to_record_get_next_availability:
  "map_option (\<lambda>(a, d). \<lparr>n_avail_time = a, n_duration = d\<rparr>) (get_next_availability events t)
     = get_next_availability_flask events t"
  by (simp add: get_next_availability_filter get_next_availability_flask_filter
      split: option.splits)

text \<open>
  Claim C2. At an instant \<open>t\<close> at which the room is occupied, let \<open>c\<close> be the first event of
  the list, in its order, with \<open>start \<le> t \<le> end\<close>, and \<open>E\<close> its end. If \<open>E\<close> is on another
  date than \<open>t\<close>, there is no availability today. Otherwise the room is available at \<open>E\<close>,
  for the minutes from \<open>E\<close> to the earliest start among the events that start at or after
  \<open>E\<close> on that date, and without bound when there is no such event. The tuple of the
  command-line program and the dictionary of the web application carry the same two values.
\<close>

theorem next_availability_when_occupied:
  assumes "\<not> is_room_available_now events t"
  shows "\<exists>c. find (\<lambda>e. ev_start e \<le> t \<and> t \<le> ev_end e) events = Some c
           \<and> get_next_availability events t =
               (if date_of (ev_end c) \<noteq> date_of t then None
                else Some (ev_end c,
                           case filter (\<lambda>e. ev_start e \<ge> ev_end c
                                             \<and> date_of (ev_start e) = date_of t) events of
                             [] \<Rightarrow> Inf
                           | x # rest \<Rightarrow> minutes (Min (ev_start ` set (x # rest)) - ev_end c)))
           \<and> get_next_availability_flask events t =
               (if date_of (ev_end c) \<noteq> date_of t then None
                else Some \<lparr>n_avail_time = ev_end c,
                           n_duration =
                             (case filter (\<lambda>e. ev_start e \<ge> ev_end c
                                               \<and> date_of (ev_start e) = date_of t) events of
                                [] \<Rightarrow> Inf
                              | x # rest \<Rightarrow> minutes (Min (ev_start ` set (x # rest)) - ev_end c))\<rparr>)"
proof -
  from assms have "\<not> availability_loop events t"
    by (simp add: is_room_available_now_def split: if_splits)
  then obtain c where c: "find (\<lambda>e. ev_start e \<le> t \<and> t \<le> ev_end e) events = Some c"
    using find_covering_Some by blast
  show ?thesis
    by (rule exI [of _ c])
       (simp add: c get_next_availability_filter get_next_availability_flask_filter
          min_loop_key split: list.splits)
qed

text \<open>
  At 10:00 inside an event from 09:00 to 11:00, with later events at 12:00 and 14:00: the
  room is available at 11:00 for 60 minutes. At 23:30 inside an event from 23:00 to 01:00
  of the next day: no availability today.
\<close>

theorem next_availability_when_occupied_witness:
  "get_next_availability
     [\<lparr>ev_start = 50400000000, ev_end = 54000000000\<rparr>,
      \<lparr>ev_start = 32400000000, ev_end = 39600000000\<rparr>,
      \<lparr>ev_start = 43200000000, ev_end = 46800000000\<rparr>] 36000000000
     = Some (39600000000, Float 60)
   \<and> get_next_availability_flask
     [\<lparr>ev_start = 50400000000, ev_end = 54000000000\<rparr>,
      \<lparr>ev_start = 32400000000, ev_end = 39600000000\<rparr>,
      \<lparr>ev_start = 43200000000, ev_end = 46800000000\<rparr>] 36000000000
     = Some \<lparr>n_avail_time = 39600000000, n_duration = Float 60\<rparr>
   \<and> get_next_availability [\<lparr>ev_start = 82800000000, ev_end = 90000000000\<rparr>] 84600000000
     = None"
proof -
  let ?evs = "[\<lparr>ev_start = 50400000000, ev_end = 54000000000\<rparr>,
      \<lparr>ev_start = 32400000000, ev_end = 39600000000\<rparr>,
      \<lparr>ev_start = 43200000000, ev_end = 46800000000\<rparr>]"
  let ?night = "[\<lparr>ev_start = 82800000000, ev_end = 90000000000\<rparr>]"
  have occ: "\<not> is_room_available_now ?evs 36000000000"
    by (simp add: is_room_available_now_def)
  have occ_night: "\<not> is_room_available_now ?night 84600000000"
    by (simp add: is_room_available_now_def)
  show ?thesis
    using next_availability_when_occupied [OF occ] next_availability_when_occupied [OF occ_night]
    by (simp add: date_of_def usec_per_day_def minutes_def)
qed

text \<open>
  Claim C4. A room with no event is available and its free duration is infinite; so is a
  room all of whose events lie before the query instant.
\<close>

theorem no_future_event_means_free_all_day:
  "is_room_available_now [] t \<and> get_available_duration [] t = Inf
   \<and> is_room_available [] t \<and> get_available_duration_flask [] t = Inf
   \<and> ((\<forall>e \<in> set events. ev_start e < t \<and> ev_end e < t) \<longrightarrow>
        is_room_available_now events t \<and> get_available_duration events t = Inf
        \<and> is_room_available events t \<and> get_available_duration_flask events t = Inf)"
proof (intro conjI impI)
  assume past: "\<forall>e \<in> set events. ev_start e < t \<and> ev_end e < t"
  then have free: "availability_loop events t"
    by (auto simp add: availability_loop_iff)
  from past have "filter (\<lambda>e. ev_start e > t \<and> date_of (ev_start e) = date_of t) events = []"
    by (auto simp add: filter_empty_conv)
  then have none: "get_next_event events t = None" "get_next_event_today events t = None"
    by (simp_all add: get_next_event_filter get_next_event_today_filter)
  show "is_room_available_now events t" using free by (simp add: is_room_available_now_def)
  show "is_room_available events t" using free by (simp add: is_room_available_def)
  show "get_available_duration events t = Inf" using none by (simp add: get_available_duration_def)
  show "get_available_duration_flask events t = Inf"
    using none by (simp add: get_available_duration_flask_def)
qed (simp_all add: is_room_available_now_def is_room_available_def get_available_duration_def
      get_available_duration_flask_def get_next_event_def get_next_event_today_def)

theorem no_future_event_means_free_all_day_witness:
  "is_room_available_now
     [\<lparr>ev_start = 28800000000, ev_end = 32400000000\<rparr>,
      \<lparr>ev_start = 32400000000, ev_end = 35999999999\<rparr>] 36000000000
   \<and> get_available_duration
     [\<lparr>ev_start = 28800000000, ev_end = 32400000000\<rparr>,
      \<lparr>ev_start = 32400000000, ev_end = 35999999999\<rparr>] 36000000000 = Inf"
  using no_future_event_means_free_all_day
          [of 36000000000 "[\<lparr>ev_start = 28800000000, ev_end = 32400000000\<rparr>,
                            \<lparr>ev_start = 32400000000, ev_end = 35999999999\<rparr>]"]
  by simp

text \<open>
  Claim C9. No duration derived from events is negative: a finite free duration is at
  least 0, since the next event starts after \<open>t\<close>, and a finite free window after an
  occupancy is at least 0, since the following event starts at or after the end of the
  current one. Neither is ever minus infinity.
\<close>

theorem durations_nonnegative:
  "get_available_duration events t \<noteq> MinusInf
   \<and> (\<forall>m. get_available_duration events t = Float m \<longrightarrow> 0 \<le> m)
   \<and> (\<forall>E d. get_next_availability events t = Some (E, d) \<longrightarrow>
          d \<noteq> MinusInf \<and> (\<forall>m. d = Float m \<longrightarrow> 0 \<le> m))"
proof (intro conjI allI impI)
  let ?P = "\<lambda>e. ev_start e > t \<and> date_of (ev_start e) = date_of t"
  show "get_available_duration events t \<noteq> MinusInf"
    by (simp add: get_available_duration_def minutes_def split: option.splits)
  show "0 \<le> m" if "get_available_duration events t = Float m" for m
  proof -
    from that obtain x rest where f: "filter ?P events = x # rest"
      and m: "m = of_int (ev_start (min_loop ev_start x rest) - t) / 1000000 / 60"
      by (auto simp add: get_available_duration_def get_next_event_filter minutes_def
          split: option.splits list.splits)
    from first_min_filter(2) [OF f, of ev_start] have "t < ev_start (min_loop ev_start x rest)"
      by simp
    with m show ?thesis by simp
  qed
  fix E d assume na: "get_next_availability events t = Some (E, d)"
  show "d \<noteq> MinusInf"
    using na by (auto simp add: get_next_availability_filter minutes_def
        split: option.splits list.splits if_splits)
  show "0 \<le> m" if "d = Float m" for m
  proof -
    let ?Q = "\<lambda>e. ev_start e \<ge> E \<and> date_of (ev_start e) = date_of t"
    from na that obtain x rest where f: "filter ?Q events = x # rest"
      and m: "m = of_int (ev_start (min_loop ev_start x rest) - E) / 1000000 / 60"
      by (auto simp add: get_next_availability_filter minutes_def
          split: option.splits list.splits if_splits)
    from first_min_filter(2) [OF f, of ev_start] have "E \<le> ev_start (min_loop ev_start x rest)"
      by simp
    with m show ?thesis by simp
  qed
qed

theorem durations_nonnegative_witness:
  "get_available_duration [\<lparr>ev_start = 37800000000, ev_end = 39600000000\<rparr>] 36000000000
     = Float 30
   \<and> get_next_availability
       [\<lparr>ev_start = 32400000000, ev_end = 39600000000\<rparr>,
        \<lparr>ev_start = 39600000000, ev_end = 46800000000\<rparr>] 36000000000
     = Some (39600000000, Float 0)"
  using durations_nonnegative [of "[\<lparr>ev_start = 37800000000, ev_end = 39600000000\<rparr>]" 36000000000]
  by (simp add: get_available_duration_def get_next_event_def get_next_availability_def
      minutes_def date_of_def usec_per_day_def)

text \<open>
  Claim C10. The evaluator of room_checker.py and the one of celcat_flask_app.py agree on
  every event list and instant: the same occupancy, the same next event, the same free
  duration, and the same next availability, a tuple in the one and a dictionary with the
  same two values in the other. On the empty list both return \<open>None\<close>, the web
  application by its early return and the command-line program by falling through its loop.
\<close>

theorem evaluators_agree:
  "is_room_available_now events t = is_room_available events t
   \<and> get_next_event events t = get_next_event_today events t
   \<and> get_available_duration events t = get_available_duration_flask events t
   \<and> map_option (\<lambda>(a, d). \<lparr>n_avail_time = a, n_duration = d\<rparr>) (get_next_availability events t)
       = get_next_availability_flask events t
   \<and> (get_next_availability events t = None \<longleftrightarrow> get_next_availability_flask events t = None)
   \<and> get_next_availability [] t = None \<and> get_next_availability_flask [] t = None"
proof -
  have ne: "get_next_event events t = get_next_event_today events t"
    by (simp add: get_next_event_filter get_next_event_today_filter)
  have na: "map_option (\<lambda>(a, d). \<lparr>n_avail_time = a, n_duration = d\<rparr>)
              (get_next_availability events t) = get_next_availability_flask events t"
    by (rule to_record_get_next_availability)
  have "get_available_duration events t = get_available_duration_flask events t"
    by (simp add: get_available_duration_def get_available_duration_flask_def ne
        split: option.splits)
  moreover have "get_next_availability events t = None
                   \<longleftrightarrow> get_next_availability_flask events t = None"
    unfolding na [symmetric] by simp
  moreover have "get_next_availability [] t = None"
    by (simp add: get_next_availability_def)
  moreover have "get_next_availability_flask [] t = None"
    by (simp add: get_next_availability_flask_def)
  ultimately show ?thesis
    using ne na by (simp add: is_room_available_now_def is_room_available_def)
qed

section \<open>The order of the sort keys\<close>

lemma Float_less_Inf: "Float q < Inf"
  by (simp add: less_pyfloat_def)

lemma neg_less_iff: "neg a < neg b \<longleftrightarrow> b < a"
  by (cases a; cases b) (auto simp add: less_pyfloat_def)

lemma neg_eq_iff: "neg a = neg b \<longleftrightarrow> a = b"
  by (cases a; cases b) simp_all

lemma available_key_le:
  "available_key x \<le> available_key y \<longleftrightarrow>
     snd (snd y) < snd (snd x) \<or> (snd (snd x) = snd (snd y) \<and> fst x \<le> fst y)"
  by (cases x; cases y)
     (auto simp add: available_key_def less_eq_prod_def neg_less_iff neg_eq_iff le_less)

lemma occupied_key_le:
  "occupied_key x \<le> occupied_key y \<longleftrightarrow>
     fst (snd (snd x)) < fst (snd (snd y))
     \<or> (fst (snd (snd x)) = fst (snd (snd y))
        \<and> (snd (snd (snd y)) < snd (snd (snd x))
           \<or> (snd (snd (snd x)) = snd (snd (snd y)) \<and> fst x \<le> fst y)))"
  by (cases x; cases y)
     (auto simp add: occupied_key_def less_eq_prod_def neg_less_iff neg_eq_iff le_less)

lemma sorted_wrt_sort_key:
  "sorted_wrt (\<lambda>x y. k x \<le> k y) (sort_key k xs)"
  using sorted_sort_key [of k xs] by (simp add: sorted_map)

lemma sort_available_sorted:
  "sorted_wrt (\<lambda>x y. snd (snd y) < snd (snd x) \<or> (snd (snd x) = snd (snd y) \<and> fst x \<le> fst y))
     (sort_key available_key xs)"
  using sorted_wrt_sort_key [of available_key xs] by (simp add: available_key_le)

lemma sort_occupied_sorted:
  "sorted_wrt (\<lambda>x y. fst (snd (snd x)) < fst (snd (snd y))
     \<or> (fst (snd (snd x)) = fst (snd (snd y))
        \<and> (snd (snd (snd y)) < snd (snd (snd x))
           \<or> (snd (snd (snd x)) = snd (snd (snd y)) \<and> fst x \<le> fst y))))
     (sort_key occupied_key xs)"
  using sorted_wrt_sort_key [of occupied_key xs] by (simp add: occupied_key_le)

lemma flask_available_key_le:
  "(neg (a_duration x), a_room x) \<le> (neg (a_duration y), a_room y) \<longleftrightarrow>
     a_duration y < a_duration x \<or> (a_duration x = a_duration y \<and> a_room x \<le> a_room y)"
  by (auto simp add: less_eq_prod_def neg_less_iff neg_eq_iff le_less)

lemma flask_occupied_key_le:
  "(o_avail_time x, neg (o_duration x), o_room x) \<le> (o_avail_time y, neg (o_duration y), o_room y)
     \<longleftrightarrow> o_avail_time x < o_avail_time y
          \<or> (o_avail_time x = o_avail_time y
             \<and> (o_duration y < o_duration x
                \<or> (o_duration x = o_duration y \<and> o_room x \<le> o_room y)))"
  by (auto simp add: less_eq_prod_def neg_less_iff neg_eq_iff le_less)

section \<open>Payloads that are lists of events\<close>

text \<open>
  On a payload that is a list of events of the data model, the functions that run on the
  decoded value return what the evaluator returns on the events, and raise nothing.
\<close>

lemma decode_event_fields:
  assumes "decode_event fiso ev = Some e"
  shows "event_start fiso ev = Inr (ev_start e)" and "event_end fiso ev = Inr (ev_end e)"
  using assms by (auto simp add: decode_event_def split: sum.splits)

lemma decode_list_length: "decode_list fiso xs = Some evs \<Longrightarrow> length xs = length evs"
  by (induction xs arbitrary: evs) (auto split: option.splits)

lemma decode_list_Cons:
  assumes "decode_list fiso (x # xs) = Some evs"
  obtains e rest where "evs = e # rest" and "decode_event fiso x = Some e"
    and "decode_list fiso xs = Some rest"
  using assms by (auto split: option.splits)

lemma availability_loop_json_decoded:
  "decode_list fiso xs = Some evs \<Longrightarrow>
   availability_loop_json fiso xs t = Inr (availability_loop evs t)"
proof (induction xs arbitrary: evs)
  case Nil
  then show ?case by simp
next
  case (Cons x xs)
  from Cons.prems obtain e rest where evs: "evs = e # rest"
    and e: "decode_event fiso x = Some e" and rest: "decode_list fiso xs = Some rest"
    by (rule decode_list_Cons)
  show ?case
    by (simp add: evs decode_event_fields [OF e] Cons.IH [OF rest])
qed

lemma current_event_loop_json_decoded:
  "decode_list fiso xs = Some evs \<Longrightarrow>
   current_event_loop_json fiso xs t = Inr (current_event_loop evs t)"
proof (induction xs arbitrary: evs)
  case Nil
  then show ?case by simp
next
  case (Cons x xs)
  from Cons.prems obtain e rest where evs: "evs = e # rest"
    and e: "decode_event fiso x = Some e" and rest: "decode_list fiso xs = Some rest"
    by (rule decode_list_Cons)
  show ?case
    by (simp add: evs decode_event_fields [OF e] Cons.IH [OF rest])
qed


lemma comprehension_json_decoded:
  "decode_list fiso xs = Some evs \<Longrightarrow>
   comprehension_json fiso cond xs =
     Inr (filter (\<lambda>p. cond (snd p)) (zip xs (map ev_start evs)))"
proof (induction xs arbitrary: evs)
  case Nil
  then show ?case by simp
next
  case (Cons x xs)
  from Cons.prems obtain e rest where evs: "evs = e # rest"
    and e: "decode_event fiso x = Some e" and rest: "decode_list fiso xs = Some rest"
    by (rule decode_list_Cons)
  show ?case
    by (simp add: evs decode_event_fields [OF e] Cons.IH [OF rest])
qed


lemma zip_filter_starts:
  "length xs = length evs \<Longrightarrow>
   map snd (filter (\<lambda>p. P (snd p)) (zip xs (map f evs))) = map f (filter (\<lambda>e. P (f e)) evs)"
  by (induction xs evs rule: list_induct2) auto

lemma min_loop_same_keys:
  assumes "k b = k' b'" and "map k xs = map k' ys"
  shows "k (min_loop k b xs) = k' (min_loop k' b' ys)"
proof -
  have "k ` set (b # xs) = set (map k (b # xs))" by simp
  also have "\<dots> = set (map k' (b' # ys))" using assms by simp
  also have "\<dots> = k' ` set (b' # ys)" by simp
  finally show ?thesis by (simp only: min_loop_key)
qed

text \<open>The first minimum over the pairs and over the decoded events have the same start.\<close>

lemma first_min_start:
  assumes "length xs = length evs"
  shows "(case filter (\<lambda>p. P (snd p)) (zip xs (map ev_start evs)) of
            [] \<Rightarrow> None | x # rest \<Rightarrow> Some (snd (min_loop snd x rest)))
         = (case filter (\<lambda>e. P (ev_start e)) evs of
              [] \<Rightarrow> None | y # rest \<Rightarrow> Some (ev_start (min_loop ev_start y rest)))"
proof -
  let ?F = "filter (\<lambda>p. P (snd p)) (zip xs (map ev_start evs))"
  let ?G = "filter (\<lambda>e. P (ev_start e)) evs"
  have m: "map snd ?F = map ev_start ?G" by (rule zip_filter_starts [OF assms])
  show ?thesis
  proof (cases ?F)
    case Nil
    with m have "?G = []" by simp
    with Nil show ?thesis by simp
  next
    case (Cons x rest)
    with m obtain y rest' where G: "?G = y # rest'" and xy: "snd x = ev_start y"
      and r: "map snd rest = map ev_start rest'"
      by (cases ?G) auto
    from min_loop_same_keys [OF xy r] Cons G show ?thesis by simp
  qed
qed

lemma decode_JList:
  assumes "decode fiso events = Some evs"
  obtains xs where "events = JList xs" and "decode_list fiso xs = Some evs"
  using assms by (cases events) auto

lemma decode_list_Nil_iff: "decode_list fiso xs = Some evs \<Longrightarrow> (evs = []) = (xs = [])"
  by (drule decode_list_length) auto


lemma is_room_available_json_decoded:
  assumes "decode fiso events = Some evs"
  shows "is_room_available_json fiso events t = Inr (is_room_available evs t)"
proof -
  from assms obtain xs where ev: "events = JList xs" and xs: "decode_list fiso xs = Some evs"
    by (rule decode_JList)
  show ?thesis
    using decode_list_Nil_iff [OF xs]
    by (auto simp add: ev is_room_available_json_def is_room_available_def
        availability_loop_json_decoded [OF xs])
qed


lemma get_next_event_today_json_decoded:
  assumes "decode fiso events = Some evs"
  shows "map_sum id (map_option snd) (get_next_event_today_json fiso events t)
           = Inr (map_option ev_start (get_next_event_today evs t))"
proof -
  from assms obtain xs where ev: "events = JList xs" and xs: "decode_list fiso xs = Some evs"
    by (rule decode_JList)
  let ?P = "\<lambda>s. s > t \<and> date_of s = date_of t"
  from first_min_start [OF decode_list_length [OF xs], of ?P]
  show ?thesis
    using decode_list_Nil_iff [OF xs]
    by (auto simp add: ev get_next_event_today_json_def get_next_event_today_filter
        comprehension_json_decoded [OF xs] split: list.splits)
qed


lemma get_available_duration_flask_json_decoded:
  assumes "decode fiso events = Some evs"
  shows "get_available_duration_flask_json fiso events t
           = Inr (get_available_duration_flask evs t)"
proof -
  from get_next_event_today_json_decoded [OF assms, of t] show ?thesis
    by (cases "get_next_event_today_json fiso events t"; cases "get_next_event_today evs t")
       (auto simp add: get_available_duration_flask_json_def get_available_duration_flask_def)
qed


lemma get_next_availability_flask_json_decoded:
  assumes "decode fiso events = Some evs"
  shows "get_next_availability_flask_json fiso events t
           = Inr (get_next_availability_flask evs t)"
proof -
  from assms obtain xs where ev: "events = JList xs" and xs: "decode_list fiso xs = Some evs"
    by (rule decode_JList)
  show ?thesis
  proof (cases "find (\<lambda>e. ev_start e \<le> t \<and> t \<le> ev_end e) evs")
    case None
    then show ?thesis
      using decode_list_Nil_iff [OF xs]
      by (auto simp add: ev get_next_availability_flask_json_def
          get_next_availability_flask_filter
          current_event_loop_json_decoded [OF xs] current_event_loop_find)
  next
    case (Some c)
    let ?Q = "\<lambda>s. s \<ge> ev_end c \<and> date_of s = date_of t"
    from Some have ne: "evs \<noteq> []" by auto
    from first_min_start [OF decode_list_length [OF xs], of ?Q] Some ne
    show ?thesis
      using decode_list_Nil_iff [OF xs]
      by (auto simp add: ev get_next_availability_flask_json_def
          get_next_availability_flask_filter
          current_event_loop_json_decoded [OF xs] current_event_loop_find
          comprehension_json_decoded [OF xs] split: list.splits)
  qed
qed

section \<open>The loop over the rooms\<close>


text \<open>What one room adds to the lists does not depend on what the lists hold.\<close>

lemma room_step_append:
  "room_step fiso post now room (av, oc, out) =
     (case room_step fiso post now room ([], [], []) of
        Inl e \<Rightarrow> Inl e
      | Inr (da, dc, lines) \<Rightarrow> Inr (av @ da, oc @ dc, out @ lines))"
  by (simp add: room_step_def split: sum.splits prod.splits option.splits)

lemma rooms_loop_append:
  "rooms_loop fiso post now rooms (av, oc, out) =
     (case rooms_loop fiso post now rooms ([], [], []) of
        Inl e \<Rightarrow> Inl e
      | Inr (da, dc, lines) \<Rightarrow> Inr (av @ da, oc @ dc, out @ lines))"
proof (induction rooms arbitrary: av oc out)
  case Nil
  show ?case by simp
next
  case (Cons room rest)
  show ?case
  proof (cases "room_step fiso post now room ([], [], [])")
    case (Inl e)
    then show ?thesis by (simp add: room_step_append [of _ _ _ _ av oc out])
  next
    case (Inr st)
    obtain da dc lines where st: "st = (da, dc, lines)" by (cases st)
    show ?thesis
    proof (cases "rooms_loop fiso post now rest ([], [], [])")
      case (Inl e)
      with Inr st show ?thesis
        by (simp add: room_step_append [of _ _ _ _ av oc out]
            Cons.IH [of "av @ da" "oc @ dc" "out @ lines"] Cons.IH [of da dc lines])
    next
      case (Inr st2)
      obtain da2 dc2 lines2 where st2: "st2 = (da2, dc2, lines2)" by (cases st2)
      from Inr st2 \<open>room_step fiso post now room ([], [], []) = Inr st\<close> st show ?thesis
        by (simp add: room_step_append [of _ _ _ _ av oc out]
            Cons.IH [of "av @ da" "oc @ dc" "out @ lines"] Cons.IH [of da dc lines])
    qed
  qed
qed

lemma room_step_failed:
  assumes "fetch_failed post room"
  shows "\<exists>lines. room_step fiso post now room ([], [], []) = Inr ([], [], lines)
           \<and> Could_not_fetch room \<in> set lines
           \<and> (\<forall>e. post room = Raises e \<longrightarrow> Error_fetching room e \<in> set lines)"
  using assms
  by (cases "post room")
     (auto simp add: fetch_failed_def room_step_def get_room_schedule_def split: if_splits)

lemma room_step_names:
  assumes "room_step fiso post now room ([], [], []) = Inr (da, dc, lines)"
  shows "fst ` set da \<subseteq> {room}" and "fst ` set dc \<subseteq> {room}"
    and "\<not> fetch_failed post room \<or> (da = [] \<and> dc = [])"
    and "\<forall>x \<in> set da. get_available_duration_json fiso (fst (snd x)) now = Inr (snd (snd x))"
  using assms
  by (auto simp add: room_step_def fetch_failed_def
      split: sum.splits prod.splits option.splits if_splits)

lemma rooms_loop_Cons:
  "rooms_loop fiso post now (room # rest) ([], [], []) =
     (case room_step fiso post now room ([], [], []) of
        Inl e \<Rightarrow> Inl e
      | Inr (da, dc, lines) \<Rightarrow>
          (case rooms_loop fiso post now rest ([], [], []) of
             Inl e \<Rightarrow> Inl e
           | Inr (da2, dc2, lines2) \<Rightarrow> Inr (da @ da2, dc @ dc2, lines @ lines2)))"
proof (cases "room_step fiso post now room ([], [], [])")
  case (Inl e)
  then show ?thesis by simp
next
  case (Inr st)
  obtain da dc lines where st: "st = (da, dc, lines)" by (cases st)
  show ?thesis
    using Inr st rooms_loop_append [of fiso post now rest da dc lines]
    by (simp split: sum.splits prod.splits)
qed


lemma rooms_loop_contents:
  assumes "rooms_loop fiso post now rooms ([], [], []) = Inr (av, oc, out)"
  shows "fst ` set av \<subseteq> {room \<in> set rooms. \<not> fetch_failed post room}
         \<and> fst ` set oc \<subseteq> {room \<in> set rooms. \<not> fetch_failed post room}
         \<and> (\<forall>x \<in> set av.
               get_available_duration_json fiso (fst (snd x)) now = Inr (snd (snd x)))
         \<and> (\<forall>room \<in> set rooms. fetch_failed post room \<longrightarrow>
               Could_not_fetch room \<in> set out
               \<and> (\<forall>e. post room = Raises e \<longrightarrow> Error_fetching room e \<in> set out))"
  using assms
proof (induction rooms arbitrary: av oc out)
  case Nil
  then show ?case by simp
next
  case (Cons room rest)
  from Cons.prems obtain da dc lines da2 dc2 lines2 where
    step: "room_step fiso post now room ([], [], []) = Inr (da, dc, lines)" and
    run: "rooms_loop fiso post now rest ([], [], []) = Inr (da2, dc2, lines2)" and
    av: "av = da @ da2" and oc: "oc = dc @ dc2" and out: "out = lines @ lines2"
    by (simp only: rooms_loop_Cons) (auto split: sum.splits prod.splits)
  note here = room_step_names [OF step]
  from Cons.IH [OF run] have
    there1: "fst ` set da2 \<subseteq> {room \<in> set rest. \<not> fetch_failed post room}" and
    there2: "fst ` set dc2 \<subseteq> {room \<in> set rest. \<not> fetch_failed post room}" and
    there3: "\<forall>x \<in> set da2.
               get_available_duration_json fiso (fst (snd x)) now = Inr (snd (snd x))" and
    there4: "\<forall>room \<in> set rest. fetch_failed post room \<longrightarrow>
               Could_not_fetch room \<in> set lines2
               \<and> (\<forall>e. post room = Raises e \<longrightarrow> Error_fetching room e \<in> set lines2)"
    by simp_all
  have a: "fst ` set da \<subseteq> {r \<in> set (room # rest). \<not> fetch_failed post r}"
    using here(1) here(3) by (cases "fetch_failed post room") auto
  have a2: "fst ` set da2 \<subseteq> {r \<in> set (room # rest). \<not> fetch_failed post r}"
    using there1 by auto
  have c: "fst ` set dc \<subseteq> {r \<in> set (room # rest). \<not> fetch_failed post r}"
    using here(2) here(3) by (cases "fetch_failed post room") auto
  have c2: "fst ` set dc2 \<subseteq> {r \<in> set (room # rest). \<not> fetch_failed post r}"
    using there2 by auto
  have 1: "fst ` set av \<subseteq> {r \<in> set (room # rest). \<not> fetch_failed post r}"
    using a a2 by (simp add: av image_Un)
  have 2: "fst ` set oc \<subseteq> {r \<in> set (room # rest). \<not> fetch_failed post r}"
    using c c2 by (simp add: oc image_Un)
  have 3: "\<forall>x \<in> set av.
             get_available_duration_json fiso (fst (snd x)) now = Inr (snd (snd x))"
    using here(4) there3 by (auto simp add: av)
  have first: "Could_not_fetch room \<in> set lines
        \<and> (\<forall>e. post room = Raises e \<longrightarrow> Error_fetching room e \<in> set lines)"
    if "fetch_failed post room"
    using room_step_failed [OF that, of fiso now] step by auto
  have 4: "\<forall>r \<in> set (room # rest). fetch_failed post r \<longrightarrow>
             Could_not_fetch r \<in> set out
             \<and> (\<forall>e. post r = Raises e \<longrightarrow> Error_fetching r e \<in> set out)"
    using first there4 by (auto simp add: out)
  from 1 2 3 4 show ?case by blast
qed



lemma get_next_event_json_of_duration:
  "get_available_duration_json fiso events now = Inr d \<Longrightarrow>
   \<exists>next_event. get_next_event_json fiso events now = Inr next_event"
  by (cases "get_next_event_json fiso events now")
     (simp_all add: get_available_duration_json_def)

lemma print_available_total:
  assumes "\<forall>x \<in> set xs. \<exists>d. get_available_duration_json fiso (fst (snd x)) now = Inr d"
  shows "\<exists>printed. print_available fiso xs now = Inr printed"
  using assms
proof (induction xs)
  case Nil
  show ?case by simp
next
  case (Cons x xs)
  from Cons.prems obtain d where
    "get_available_duration_json fiso (fst (snd x)) now = Inr d" by auto
  from get_next_event_json_of_duration [OF this] obtain next_event where
    ne: "get_next_event_json fiso (fst (snd x)) now = Inr next_event" by blast
  from Cons.prems Cons.IH obtain printed where
    p: "print_available fiso xs now = Inr printed" by auto
  show ?case by (simp add: ne p)
qed

lemma print_available_names:
  "print_available fiso xs now = Inr printed \<Longrightarrow> map fst printed = map fst xs"
  by (induction xs arbitrary: printed) (auto split: sum.splits)

lemma available_info_names:
  "available_info fiso xs t = Inr infos \<Longrightarrow> map fst infos = map a_room xs"
  by (induction xs arbitrary: infos) (auto split: sum.splits)

lemma check_rooms_Inr:
  assumes "rooms_loop fiso post now rooms ([], [], []) = Inr (av, oc, out)"
  shows "\<exists>printed.
           print_available fiso (sort_key available_key av) now = Inr printed
           \<and> check_rooms fiso rooms post now =
               Inr \<lparr>available_section = sort_key available_key av,
                    available_until = printed,
                    next_section = (if length av \<le> 2 \<and> oc \<noteq> []
                                    then Some (take 2 (sort_key occupied_key oc)) else None),
                    summary = (length av, length oc),
                    fetch_lines = out\<rparr>"
proof -
  from rooms_loop_contents [OF assms] have
    "\<forall>x \<in> set (sort_key available_key av).
       \<exists>d. get_available_duration_json fiso (fst (snd x)) now = Inr d"
    by auto
  from print_available_total [OF this] obtain printed where
    "print_available fiso (sort_key available_key av) now = Inr printed" by blast
  then show ?thesis by (simp add: check_rooms_def assms)
qed

lemma check_rooms_InrD:
  assumes "check_rooms fiso rooms post now = Inr r"
  obtains av oc out printed where
    "rooms_loop fiso post now rooms ([], [], []) = Inr (av, oc, out)"
    and "print_available fiso (sort_key available_key av) now = Inr printed"
    and "r = \<lparr>available_section = sort_key available_key av,
              available_until = printed,
              next_section = (if length av \<le> 2 \<and> oc \<noteq> []
                              then Some (take 2 (sort_key occupied_key oc)) else None),
              summary = (length av, length oc),
              fetch_lines = out\<rparr>"
proof (cases "rooms_loop fiso post now rooms ([], [], [])")
  case (Inl e)
  with assms show ?thesis by (simp add: check_rooms_def)
next
  case (Inr st)
  obtain av oc out where "st = (av, oc, out)" by (cases st)
  with Inr have run: "rooms_loop fiso post now rooms ([], [], []) = Inr (av, oc, out)"
    by simp
  from check_rooms_Inr [OF run] obtain printed where
    p: "print_available fiso (sort_key available_key av) now = Inr printed" and
    c: "check_rooms fiso rooms post now =
          Inr \<lparr>available_section = sort_key available_key av,
               available_until = printed,
               next_section = (if length av \<le> 2 \<and> oc \<noteq> []
                               then Some (take 2 (sort_key occupied_key oc)) else None),
               summary = (length av, length oc),
               fetch_lines = out\<rparr>"
    by blast
  from c assms have "r = \<lparr>available_section = sort_key available_key av,
               available_until = printed,
               next_section = (if length av \<le> 2 \<and> oc \<noteq> []
                               then Some (take 2 (sort_key occupied_key oc)) else None),
               summary = (length av, length oc),
               fetch_lines = out\<rparr>"
    by simp
  with run p show ?thesis by (rule that)
qed



section \<open>The query of the web application\<close>

lemma check_rooms_flask_InrD:
  assumes "check_rooms_flask fiso rooms post t = Inr res"
  obtains av oc infos where
    "rooms_loop_flask fiso post t rooms ([], []) = Inr (av, oc)"
    and "available_info fiso (sort_available_flask av) t = Inr infos"
    and "res = \<lparr>available = infos,
                next_available =
                  (if length av \<le> 2
                   then map (\<lambda>item. (o_room item, o_avail_time item, o_duration item))
                          (take 2 (sort_occupied_flask oc))
                   else []),
                summary_flask = (length av, length oc)\<rparr>"
proof (cases "rooms_loop_flask fiso post t rooms ([], [])")
  case (Inl e)
  with assms show ?thesis by (simp add: check_rooms_flask_def)
next
  case (Inr st)
  obtain av oc where st: "st = (av, oc)" by (cases st)
  show ?thesis
  proof (cases "available_info fiso (sort_available_flask av) t")
    case (Inl e)
    with assms Inr st show ?thesis
      by (simp add: check_rooms_flask_def Let_def sort_available_flask_def)
  next
    case (Inr infos)
    from assms \<open>rooms_loop_flask fiso post t rooms ([], []) = Inr st\<close> st Inr
    have "res = \<lparr>available = infos,
                next_available =
                  (if length av \<le> 2
                   then map (\<lambda>item. (o_room item, o_avail_time item, o_duration item))
                          (take 2 (sort_occupied_flask oc))
                   else []),
                summary_flask = (length av, length oc)\<rparr>"
      by (auto simp add: check_rooms_flask_def Let_def sort_available_flask_def
          sort_occupied_flask_def)
    with \<open>rooms_loop_flask fiso post t rooms ([], []) = Inr st\<close> st Inr show ?thesis
      by (intro that [of av oc infos]) simp_all
  qed
qed

text \<open>The query returns when every payload is a list of events or the fetch failed.\<close>

lemma room_step_flask_total:
  assumes "(\<exists>e. post room = Raises e) \<or> post room = Returns JNull
           \<or> (\<exists>payload evs. post room = Returns payload \<and> decode fiso payload = Some evs)"
    and "\<forall>x \<in> set av. \<exists>d. get_available_duration_flask_json fiso (a_events x) t = Inr d"
  shows "\<exists>av' oc'. room_step_flask fiso post t room (av, oc) = Inr (av', oc')
           \<and> (\<forall>x \<in> set av'. \<exists>d. get_available_duration_flask_json fiso (a_events x) t = Inr d)"
proof (cases "get_room_schedule_flask post room = JNull")
  case True
  with assms(2) show ?thesis by (simp add: room_step_flask_def)
next
  case False
  with assms(1) obtain payload evs where p: "post room = Returns payload"
    and d: "decode fiso payload = Some evs"
    by (auto simp add: get_room_schedule_flask_def)
  from False p have g: "get_room_schedule_flask post room = payload" "payload \<noteq> JNull"
    by (simp_all add: get_room_schedule_flask_def)
  show ?thesis
    using assms(2)
    by (auto simp add: room_step_flask_def g
        is_room_available_json_decoded [OF d]
        get_available_duration_flask_json_decoded [OF d]
        get_next_availability_flask_json_decoded [OF d] split: option.splits)
qed

lemma rooms_loop_flask_total:
  assumes "\<forall>room \<in> set rooms. (\<exists>e. post room = Raises e) \<or> post room = Returns JNull
             \<or> (\<exists>payload evs. post room = Returns payload \<and> decode fiso payload = Some evs)"
    and "\<forall>x \<in> set av. \<exists>d. get_available_duration_flask_json fiso (a_events x) t = Inr d"
  shows "\<exists>av' oc'. rooms_loop_flask fiso post t rooms (av, oc) = Inr (av', oc')
           \<and> (\<forall>x \<in> set av'. \<exists>d. get_available_duration_flask_json fiso (a_events x) t = Inr d)"
  using assms
proof (induction rooms arbitrary: av oc)
  case Nil
  then show ?case by simp
next
  case (Cons room rest)
  from Cons.prems(1) have here: "(\<exists>e. post room = Raises e) \<or> post room = Returns JNull
      \<or> (\<exists>payload evs. post room = Returns payload \<and> decode fiso payload = Some evs)"
    and rest: "\<forall>room \<in> set rest. (\<exists>e. post room = Raises e) \<or> post room = Returns JNull
      \<or> (\<exists>payload evs. post room = Returns payload \<and> decode fiso payload = Some evs)"
    by simp_all
  from room_step_flask_total
      [where post = post and room = room and fiso = fiso and av = av and t = t and oc = oc,
       OF here Cons.prems(2)] obtain av1 oc1 where
    step: "room_step_flask fiso post t room (av, oc) = Inr (av1, oc1)" and
    inv: "\<forall>x \<in> set av1. \<exists>d. get_available_duration_flask_json fiso (a_events x) t = Inr d"
    by blast
  from Cons.IH [OF rest inv, of oc1] show ?case by (simp add: step)
qed

lemma available_info_total:
  assumes "\<forall>x \<in> set xs. \<exists>d. get_available_duration_flask_json fiso (a_events x) t = Inr d"
  shows "\<exists>infos. available_info fiso xs t = Inr infos"
  using assms
proof (induction xs)
  case Nil
  show ?case by simp
next
  case (Cons x xs)
  from Cons.prems obtain d where
    "get_available_duration_flask_json fiso (a_events x) t = Inr d" by auto
  then obtain next_event where
    ne: "get_next_event_today_json fiso (a_events x) t = Inr next_event"
    by (cases "get_next_event_today_json fiso (a_events x) t")
       (simp_all add: get_available_duration_flask_json_def)
  from Cons.prems Cons.IH obtain infos where
    p: "available_info fiso xs t = Inr infos" by auto
  show ?case by (simp add: ne p)
qed

lemma check_rooms_flask_total:
  assumes "\<forall>room \<in> set rooms. (\<exists>e. post room = Raises e) \<or> post room = Returns JNull
             \<or> (\<exists>payload evs. post room = Returns payload \<and> decode fiso payload = Some evs)"
  shows "\<exists>res. check_rooms_flask fiso rooms post t = Inr res"
proof -
  from rooms_loop_flask_total
      [where post = post and rooms = rooms and fiso = fiso and av = "[]" and t = t
         and oc = "[]", OF assms] obtain av oc where
    run: "rooms_loop_flask fiso post t rooms ([], []) = Inr (av, oc)" and
    inv: "\<forall>x \<in> set av. \<exists>d. get_available_duration_flask_json fiso (a_events x) t = Inr d"
    by auto
  from inv have
    "\<forall>x \<in> set (sort_available_flask av).
       \<exists>d. get_available_duration_flask_json fiso (a_events x) t = Inr d"
    by (simp add: sort_available_flask_def)
  from available_info_total [OF this] obtain infos where
    "available_info fiso (sort_available_flask av) t = Inr infos" by blast
  with run show ?thesis by (simp add: check_rooms_flask_def Let_def)
qed

section \<open>The sorted list of available rooms\<close>

text \<open>The definitions unfolded to run the two programs on a concrete input.\<close>

lemmas run_simps =
  check_rooms_def room_step_def get_room_schedule_def
  is_room_available_now_json_def get_available_duration_json_def get_next_event_json_def
  get_next_availability_json_def event_start_def event_end_def
  date_of_def usec_per_day_def minutes_def Let_def
  available_key_def occupied_key_def less_eq_prod_def less_eq_pyfloat_def less_pyfloat_def

lemmas flask_simps =
  check_rooms_flask_def room_step_flask_def get_room_schedule_flask_def
  sort_available_flask_def sort_occupied_flask_def
  is_room_available_json_def get_available_duration_flask_json_def
  get_next_event_today_json_def get_next_availability_flask_json_def
  event_start_def event_end_def
  date_of_def usec_per_day_def minutes_def Let_def
  less_eq_prod_def less_eq_pyfloat_def less_pyfloat_def

lemma sort_available_flask_sorted:
  "sorted_wrt (\<lambda>x y. a_duration y < a_duration x
                      \<or> (a_duration x = a_duration y \<and> a_room x \<le> a_room y))
     (sort_available_flask xs)"
  unfolding sort_available_flask_def
proof (rule sorted_wrt_mono_rel
    [OF _ sorted_wrt_sort_key [of "\<lambda>x. (neg (a_duration x), a_room x)" xs]])
  fix x y :: available_item
  assume "(neg (a_duration x), a_room x) \<le> (neg (a_duration y), a_room y)"
  then show "a_duration y < a_duration x
             \<or> (a_duration x = a_duration y \<and> a_room x \<le> a_room y)"
    by (simp only: flask_available_key_le)
qed

lemma sort_occupied_flask_sorted:
  "sorted_wrt (\<lambda>x y. o_avail_time x < o_avail_time y
                      \<or> (o_avail_time x = o_avail_time y
                         \<and> (o_duration y < o_duration x
                            \<or> (o_duration x = o_duration y \<and> o_room x \<le> o_room y))))
     (sort_occupied_flask xs)"
  unfolding sort_occupied_flask_def
proof (rule sorted_wrt_mono_rel
    [OF _ sorted_wrt_sort_key [of "\<lambda>x. (o_avail_time x, neg (o_duration x), o_room x)" xs]])
  fix x y :: occupied_item
  assume "(o_avail_time x, neg (o_duration x), o_room x)
            \<le> (o_avail_time y, neg (o_duration y), o_room y)"
  then show "o_avail_time x < o_avail_time y
             \<or> (o_avail_time x = o_avail_time y
                \<and> (o_duration y < o_duration x
                   \<or> (o_duration x = o_duration y \<and> o_room x \<le> o_room y)))"
    by (simp only: flask_occupied_key_le)
qed

text \<open>
  Claim C5. The available rooms of the report are in descending order of free duration,
  infinity above every finite value, and rooms of equal duration in ascending order of
  their identifier; the list is a rearrangement of the rooms found available, and the
  rooms are printed in that order. The sort of the web application gives the same order
  on every list, and its result lists the rooms in that order. Rooms A with 30 minutes, B
  with no bound and C with 30 minutes come out as B, A, C.
\<close>

theorem available_rooms_sorted:
  "(\<forall>q. Float q < Inf)
   \<and> (\<forall>r. check_rooms fromisoformat rooms post now = Inr r \<longrightarrow>
         sorted_wrt (\<lambda>x y. snd (snd y) < snd (snd x)
                            \<or> (snd (snd x) = snd (snd y) \<and> fst x \<le> fst y))
           (available_section r)
         \<and> map fst (available_until r) = map fst (available_section r)
         \<and> (\<forall>av oc out.
               rooms_loop fromisoformat post now rooms ([], [], []) = Inr (av, oc, out) \<longrightarrow>
               mset (available_section r) = mset av))
   \<and> sorted_wrt (\<lambda>x y. a_duration y < a_duration x
                        \<or> (a_duration x = a_duration y \<and> a_room x \<le> a_room y))
        (sort_available_flask available_rooms)
   \<and> mset (sort_available_flask available_rooms) = mset available_rooms
   \<and> (\<forall>res. check_rooms_flask fromisoformat rooms post t = Inr res \<longrightarrow>
         (\<exists>av oc. rooms_loop_flask fromisoformat post t rooms ([], []) = Inr (av, oc)
                  \<and> map fst (available res) = map a_room (sort_available_flask av)))
   \<and> map fst (sort_key available_key
                 [(''A'', ea, Float 30), (''B'', eb, Inf), (''C'', ec, Float 30)])
       = [''B'', ''A'', ''C'']"
proof (intro conjI allI impI)
  show "Float q < Inf" for q by (rule Float_less_Inf)
next
  fix r assume r: "check_rooms fromisoformat rooms post now = Inr r"
  from r obtain av oc out printed where
    run: "rooms_loop fromisoformat post now rooms ([], [], []) = Inr (av, oc, out)"
    and printed: "print_available fromisoformat (sort_key available_key av) now = Inr printed"
    and sec: "available_section r = sort_key available_key av"
    and until: "available_until r = printed"
    by (rule check_rooms_InrD) simp
  show "sorted_wrt (\<lambda>x y. snd (snd y) < snd (snd x)
                           \<or> (snd (snd x) = snd (snd y) \<and> fst x \<le> fst y))
          (available_section r)"
    unfolding sec by (rule sort_available_sorted)
  show "map fst (available_until r) = map fst (available_section r)"
    unfolding sec until by (rule print_available_names [OF printed])
  fix av2 oc2 out2
  assume "rooms_loop fromisoformat post now rooms ([], [], []) = Inr (av2, oc2, out2)"
  with run have "av2 = av" by simp
  then show "mset (available_section r) = mset av2" by (simp add: sec)
next
  show "sorted_wrt (\<lambda>x y. a_duration y < a_duration x
                           \<or> (a_duration x = a_duration y \<and> a_room x \<le> a_room y))
          (sort_available_flask available_rooms)"
    by (rule sort_available_flask_sorted)
  show "mset (sort_available_flask available_rooms) = mset available_rooms"
    by (simp add: sort_available_flask_def)
  show "map fst (sort_key available_key
                   [(''A'', ea, Float 30), (''B'', eb, Inf), (''C'', ec, Float 30)])
          = [''B'', ''A'', ''C'']"
    by (simp add: available_key_def less_eq_prod_def less_eq_pyfloat_def less_pyfloat_def)
next
  fix res assume "check_rooms_flask fromisoformat rooms post t = Inr res"
  then obtain av oc infos where
    run: "rooms_loop_flask fromisoformat post t rooms ([], []) = Inr (av, oc)"
    and infos: "available_info fromisoformat (sort_available_flask av) t = Inr infos"
    and res: "available res = infos"
    by (rule check_rooms_flask_InrD) simp
  from available_info_names [OF infos] run res
  show "\<exists>av oc. rooms_loop_flask fromisoformat post t rooms ([], []) = Inr (av, oc)
                \<and> map fst (available res) = map a_room (sort_available_flask av)"
    by simp
qed

text \<open>
  A run at 10:00 over the rooms C, A, B, where A and C have an event at 10:30 and B has
  none: both programs list B, A, C.
\<close>

theorem available_rooms_sorted_witness:
  "(let fromisoformat = map_of [(''0001-01-01T10:30:00'', 37800000000),
                                (''0001-01-01T11:00:00'', 39600000000)];
        events = JList [JObj [(''start'', JStr ''0001-01-01T10:30:00''),
                              (''end'', JStr ''0001-01-01T11:00:00'')]];
        post = (\<lambda>room. if room = ''B'' then Returns (JList []) else Returns events)
    in check_rooms fromisoformat [''C'', ''A'', ''B''] post 36000000000
         = Inr \<lparr>available_section =
                  [(''B'', JList [], Inf), (''A'', events, Float 30), (''C'', events, Float 30)],
                available_until =
                  [(''B'', None), (''A'', Some 37800000000), (''C'', Some 37800000000)],
                next_section = None, summary = (3, 0), fetch_lines = []\<rparr>
       \<and> map_sum (\<lambda>e. e) available
           (check_rooms_flask fromisoformat [''C'', ''A'', ''B''] post 36000000000)
         = Inr [(''B'', None), (''A'', Some 37800000000), (''C'', Some 37800000000)])"
  using available_rooms_sorted
          [of "map_of [(''0001-01-01T10:30:00'', 37800000000),
                       (''0001-01-01T11:00:00'', 39600000000)]"
              "[''C'', ''A'', ''B'']"
              "\<lambda>room. if room = ''B'' then Returns (JList [])
                       else Returns (JList [JObj [(''start'', JStr ''0001-01-01T10:30:00''),
                                                  (''end'', JStr ''0001-01-01T11:00:00'')]])"
              36000000000]
  by (simp add: run_simps flask_simps)

section \<open>The sorted list of occupied rooms\<close>

text \<open>
  Claim C6. The sort of the occupied rooms puts them in ascending order of the time they
  become available, then in descending order of the free window, infinity first, then in
  ascending order of the identifier, and rearranges the list only. The web application
  sorts its list on every query; the command-line program sorts it when it prints the
  section, which is then the first two entries of the sorted list.
\<close>

theorem occupied_rooms_sorted:
  "sorted_wrt (\<lambda>x y. fst (snd (snd x)) < fst (snd (snd y))
       \<or> (fst (snd (snd x)) = fst (snd (snd y))
          \<and> (snd (snd (snd y)) < snd (snd (snd x))
             \<or> (snd (snd (snd x)) = snd (snd (snd y)) \<and> fst x \<le> fst y))))
     (sort_key occupied_key oc)
   \<and> mset (sort_key occupied_key oc) = mset oc
   \<and> (\<forall>r sec. check_rooms fromisoformat rooms post now = Inr r \<and> next_section r = Some sec \<longrightarrow>
         sorted_wrt (\<lambda>x y. fst (snd (snd x)) < fst (snd (snd y))
             \<or> (fst (snd (snd x)) = fst (snd (snd y))
                \<and> (snd (snd (snd y)) < snd (snd (snd x))
                   \<or> (snd (snd (snd x)) = snd (snd (snd y)) \<and> fst x \<le> fst y)))) sec
         \<and> (\<exists>av occupied_rooms out.
               rooms_loop fromisoformat post now rooms ([], [], [])
                 = Inr (av, occupied_rooms, out)
               \<and> sec = take 2 (sort_key occupied_key occupied_rooms)))
   \<and> sorted_wrt (\<lambda>x y. o_avail_time x < o_avail_time y
                      \<or> (o_avail_time x = o_avail_time y
                         \<and> (o_duration y < o_duration x
                            \<or> (o_duration x = o_duration y \<and> o_room x \<le> o_room y))))
        (sort_occupied_flask occupied_items)
   \<and> mset (sort_occupied_flask occupied_items) = mset occupied_items
   \<and> (\<forall>res. check_rooms_flask fromisoformat rooms post t = Inr res \<longrightarrow>
         (\<exists>av occupied_rooms.
            rooms_loop_flask fromisoformat post t rooms ([], []) = Inr (av, occupied_rooms)
            \<and> (length av \<le> 2 \<longrightarrow>
                 next_available res
                   = map (\<lambda>item. (o_room item, o_avail_time item, o_duration item))
                       (take 2 (sort_occupied_flask occupied_rooms)))))"
proof (intro conjI allI impI)
  show "sorted_wrt (\<lambda>x y. fst (snd (snd x)) < fst (snd (snd y))
       \<or> (fst (snd (snd x)) = fst (snd (snd y))
          \<and> (snd (snd (snd y)) < snd (snd (snd x))
             \<or> (snd (snd (snd x)) = snd (snd (snd y)) \<and> fst x \<le> fst y))))
     (sort_key occupied_key oc)"
    by (rule sort_occupied_sorted)
  show "mset (sort_key occupied_key oc) = mset oc" by simp
  show "sorted_wrt (\<lambda>x y. o_avail_time x < o_avail_time y
                      \<or> (o_avail_time x = o_avail_time y
                         \<and> (o_duration y < o_duration x
                            \<or> (o_duration x = o_duration y \<and> o_room x \<le> o_room y))))
        (sort_occupied_flask occupied_items)"
    by (rule sort_occupied_flask_sorted)
  show "mset (sort_occupied_flask occupied_items) = mset occupied_items"
    by (simp add: sort_occupied_flask_def)
next
  fix r sec
  assume a: "check_rooms fromisoformat rooms post now = Inr r \<and> next_section r = Some sec"
  then have "check_rooms fromisoformat rooms post now = Inr r" by simp
  then obtain av ocs out printed where
    run: "rooms_loop fromisoformat post now rooms ([], [], []) = Inr (av, ocs, out)"
    and "print_available fromisoformat (sort_key available_key av) now = Inr printed"
    and r: "r = \<lparr>available_section = sort_key available_key av,
                 available_until = printed,
                 next_section = (if length av \<le> 2 \<and> ocs \<noteq> []
                                 then Some (take 2 (sort_key occupied_key ocs)) else None),
                 summary = (length av, length ocs),
                 fetch_lines = out\<rparr>"
    by (rule check_rooms_InrD)
  from a r have sec: "sec = take 2 (sort_key occupied_key ocs)"
    by (simp split: if_splits)
  show "sorted_wrt (\<lambda>x y. fst (snd (snd x)) < fst (snd (snd y))
             \<or> (fst (snd (snd x)) = fst (snd (snd y))
                \<and> (snd (snd (snd y)) < snd (snd (snd x))
                   \<or> (snd (snd (snd x)) = snd (snd (snd y)) \<and> fst x \<le> fst y)))) sec"
    unfolding sec by (rule sorted_wrt_take [OF sort_occupied_sorted])
  show "\<exists>av occupied_rooms out.
          rooms_loop fromisoformat post now rooms ([], [], []) = Inr (av, occupied_rooms, out)
          \<and> sec = take 2 (sort_key occupied_key occupied_rooms)"
    using run sec by blast
next
  fix res assume "check_rooms_flask fromisoformat rooms post t = Inr res"
  then obtain av ocs infos where
    run: "rooms_loop_flask fromisoformat post t rooms ([], []) = Inr (av, ocs)"
    and "available_info fromisoformat (sort_available_flask av) t = Inr infos"
    and res: "res = \<lparr>available = infos,
                next_available =
                  (if length av \<le> 2
                   then map (\<lambda>item. (o_room item, o_avail_time item, o_duration item))
                          (take 2 (sort_occupied_flask ocs))
                   else []),
                summary_flask = (length av, length ocs)\<rparr>"
    by (rule check_rooms_flask_InrD)
  show "\<exists>av occupied_rooms.
          rooms_loop_flask fromisoformat post t rooms ([], []) = Inr (av, occupied_rooms)
          \<and> (length av \<le> 2 \<longrightarrow>
               next_available res
                 = map (\<lambda>item. (o_room item, o_avail_time item, o_duration item))
                     (take 2 (sort_occupied_flask occupied_rooms)))"
    by (rule exI [of _ av], rule exI [of _ ocs]) (simp add: run res)
qed

text \<open>
  A run at 10:00 over the rooms D, C, B, A: A is free at 10:30 for 30 minutes, B and C at
  11:00 without bound, D at 11:00 for 60 minutes. The sorted order is A, B, C, D.
\<close>

theorem occupied_rooms_sorted_witness:
  "(let fromisoformat = map_of [(''0001-01-01T09:00:00'', 32400000000),
                                (''0001-01-01T09:30:00'', 34200000000),
                                (''0001-01-01T10:30:00'', 37800000000),
                                (''0001-01-01T11:00:00'', 39600000000),
                                (''0001-01-01T12:00:00'', 43200000000),
                                (''0001-01-01T13:00:00'', 46800000000)];
        event = (\<lambda>s e. JObj [(''start'', JStr s), (''end'', JStr e)]);
        a = JList [event ''0001-01-01T09:30:00'' ''0001-01-01T10:30:00'',
                   event ''0001-01-01T11:00:00'' ''0001-01-01T12:00:00''];
        d = JList [event ''0001-01-01T09:00:00'' ''0001-01-01T11:00:00'',
                   event ''0001-01-01T12:00:00'' ''0001-01-01T13:00:00''];
        other = JList [event ''0001-01-01T09:00:00'' ''0001-01-01T11:00:00''];
        post = (\<lambda>room. if room = ''A'' then Returns a
                        else if room = ''D'' then Returns d else Returns other)
    in check_rooms fromisoformat [''D'', ''C'', ''B'', ''A''] post 36000000000
         = Inr \<lparr>available_section = [], available_until = [],
                next_section = Some [(''A'', a, 37800000000, Float 30),
                                     (''B'', other, 39600000000, Inf)],
                summary = (0, 4), fetch_lines = []\<rparr>
       \<and> map_sum (\<lambda>e. e) (sort_occupied_flask \<circ> snd)
           (rooms_loop_flask fromisoformat post 36000000000 [''D'', ''C'', ''B'', ''A'']
              ([], []))
         = Inr [\<lparr>o_room = ''A'', o_avail_time = 37800000000, o_duration = Float 30\<rparr>,
                \<lparr>o_room = ''B'', o_avail_time = 39600000000, o_duration = Inf\<rparr>,
                \<lparr>o_room = ''C'', o_avail_time = 39600000000, o_duration = Inf\<rparr>,
                \<lparr>o_room = ''D'', o_avail_time = 39600000000, o_duration = Float 60\<rparr>])"
proof -
  let ?fromisoformat = "map_of [(''0001-01-01T09:00:00'', 32400000000),
                                (''0001-01-01T09:30:00'', 34200000000),
                                (''0001-01-01T10:30:00'', 37800000000),
                                (''0001-01-01T11:00:00'', 39600000000),
                                (''0001-01-01T12:00:00'', 43200000000),
                                (''0001-01-01T13:00:00'', 46800000000::int)]"
  let ?event = "\<lambda>s e. JObj [(''start'', JStr s), (''end'', JStr e)]"
  let ?a = "JList [?event ''0001-01-01T09:30:00'' ''0001-01-01T10:30:00'',
                   ?event ''0001-01-01T11:00:00'' ''0001-01-01T12:00:00'']"
  let ?d = "JList [?event ''0001-01-01T09:00:00'' ''0001-01-01T11:00:00'',
                   ?event ''0001-01-01T12:00:00'' ''0001-01-01T13:00:00'']"
  let ?other = "JList [?event ''0001-01-01T09:00:00'' ''0001-01-01T11:00:00'']"
  let ?post = "\<lambda>room. if room = ''A'' then Returns ?a
                       else if room = ''D'' then Returns ?d else Returns ?other"
  show ?thesis
    using occupied_rooms_sorted
            [of "[]" ?fromisoformat "[''D'', ''C'', ''B'', ''A'']" ?post 36000000000 "[]"
                36000000000]
    by (simp add: run_simps flask_simps)
qed

section \<open>The section of the next rooms to become available\<close>

text \<open>
  Claim C7. The section of the next rooms to become available is present only when at
  most 2 rooms are available, and never when more are; when present it is the first 2
  entries, or the only one, of the sorted list of occupied rooms. The web application
  fills \<^verbatim>\<open>'next_available'\<close> under the same condition, with at most 2 entries.
\<close>

theorem next_section_only_when_few_available:
  "(\<forall>r. check_rooms fromisoformat rooms post now = Inr r \<longrightarrow>
       (next_section r \<noteq> None \<longrightarrow> length (available_section r) \<le> 2)
       \<and> (2 < length (available_section r) \<longrightarrow> next_section r = None)
       \<and> (\<forall>sec. next_section r = Some sec \<longrightarrow> sec \<noteq> [] \<and> length sec \<le> 2)
       \<and> (\<exists>av oc out.
             rooms_loop fromisoformat post now rooms ([], [], []) = Inr (av, oc, out)
             \<and> length (available_section r) = length av
             \<and> (\<forall>sec. next_section r = Some sec \<longrightarrow> sec = take 2 (sort_key occupied_key oc))
             \<and> (length av \<le> 2 \<and> oc \<noteq> [] \<longrightarrow>
                  next_section r = Some (take 2 (sort_key occupied_key oc)))))
   \<and> (\<forall>res. check_rooms_flask fromisoformat rooms post t = Inr res \<longrightarrow>
         length (next_available res) \<le> 2
         \<and> (\<exists>av oc.
               rooms_loop_flask fromisoformat post t rooms ([], []) = Inr (av, oc)
               \<and> length (available res) = length av
               \<and> next_available res =
                   (if length (available res) \<le> 2
                    then map (\<lambda>item. (o_room item, o_avail_time item, o_duration item))
                           (take 2 (sort_occupied_flask oc))
                    else [])))"
proof (intro conjI allI impI)
  fix r assume "check_rooms fromisoformat rooms post now = Inr r"
  then obtain av oc out printed where
    run: "rooms_loop fromisoformat post now rooms ([], [], []) = Inr (av, oc, out)"
    and "print_available fromisoformat (sort_key available_key av) now = Inr printed"
    and r: "r = \<lparr>available_section = sort_key available_key av,
                 available_until = printed,
                 next_section = (if length av \<le> 2 \<and> oc \<noteq> []
                                 then Some (take 2 (sort_key occupied_key oc)) else None),
                 summary = (length av, length oc),
                 fetch_lines = out\<rparr>"
    by (rule check_rooms_InrD)
  have ne: "take 2 (sort_key occupied_key oc) \<noteq> []" if "oc \<noteq> []"
  proof
    assume "take 2 (sort_key occupied_key oc) = []"
    then have "length (sort_key occupied_key oc) = 0" by (simp add: take_eq_Nil)
    with that show False by simp
  qed
  show "length (available_section r) \<le> 2" if "next_section r \<noteq> None"
    using that r by (simp split: if_splits)
  show "next_section r = None" if "2 < length (available_section r)"
    using that r by simp
  show "sec \<noteq> []" if "next_section r = Some sec" for sec
    using that r ne by (auto split: if_splits)
  show "length sec \<le> 2" if "next_section r = Some sec" for sec
    using that r by (auto split: if_splits)
  show "\<exists>av oc out.
          rooms_loop fromisoformat post now rooms ([], [], []) = Inr (av, oc, out)
          \<and> length (available_section r) = length av
          \<and> (\<forall>sec. next_section r = Some sec \<longrightarrow> sec = take 2 (sort_key occupied_key oc))
          \<and> (length av \<le> 2 \<and> oc \<noteq> [] \<longrightarrow>
               next_section r = Some (take 2 (sort_key occupied_key oc)))"
    by (rule exI [of _ av], rule exI [of _ oc], rule exI [of _ out])
       (simp add: run r)
next
  fix res assume "check_rooms_flask fromisoformat rooms post t = Inr res"
  then obtain av oc infos where
    run: "rooms_loop_flask fromisoformat post t rooms ([], []) = Inr (av, oc)"
    and infos: "available_info fromisoformat (sort_available_flask av) t = Inr infos"
    and res: "res = \<lparr>available = infos,
                next_available =
                  (if length av \<le> 2
                   then map (\<lambda>item. (o_room item, o_avail_time item, o_duration item))
                          (take 2 (sort_occupied_flask oc))
                   else []),
                summary_flask = (length av, length oc)\<rparr>"
    by (rule check_rooms_flask_InrD)
  from available_info_names [OF infos] have "length infos = length (sort_available_flask av)"
    by (metis length_map)
  then have len: "length infos = length av" by (simp add: sort_available_flask_def)
  show "length (next_available res) \<le> 2" by (simp add: res)
  show "\<exists>av oc.
          rooms_loop_flask fromisoformat post t rooms ([], []) = Inr (av, oc)
          \<and> length (available res) = length av
          \<and> next_available res =
              (if length (available res) \<le> 2
               then map (\<lambda>item. (o_room item, o_avail_time item, o_duration item))
                      (take 2 (sort_occupied_flask oc))
               else [])"
    by (rule exI [of _ av], rule exI [of _ oc]) (simp add: run res len)
qed

text \<open>
  With 2 available and 3 occupied rooms the section holds the 2 rooms that are free
  soonest; with 3 available rooms there is no section.
\<close>

theorem next_section_only_when_few_available_witness:
  "(let fromisoformat = map_of [(''0001-01-01T09:00:00'', 32400000000),
                                (''0001-01-01T10:30:00'', 37800000000),
                                (''0001-01-01T11:00:00'', 39600000000),
                                (''0001-01-01T12:00:00'', 43200000000)];
        event = (\<lambda>s e. JObj [(''start'', JStr s), (''end'', JStr e)]);
        c = JList [event ''0001-01-01T09:00:00'' ''0001-01-01T11:00:00''];
        d = JList [event ''0001-01-01T09:00:00'' ''0001-01-01T10:30:00''];
        e = JList [event ''0001-01-01T09:00:00'' ''0001-01-01T12:00:00''];
        post = (\<lambda>room. if room = ''C'' then Returns c
                        else if room = ''D'' then Returns d
                        else if room = ''E'' then Returns e
                        else Returns (JList []))
    in check_rooms fromisoformat [''A'', ''B'', ''C'', ''D'', ''E''] post 36000000000
         = Inr \<lparr>available_section = [(''A'', JList [], Inf), (''B'', JList [], Inf)],
                available_until = [(''A'', None), (''B'', None)],
                next_section = Some [(''D'', d, 37800000000, Inf),
                                     (''C'', c, 39600000000, Inf)],
                summary = (2, 3), fetch_lines = []\<rparr>
       \<and> check_rooms fromisoformat [''A'', ''B'', ''F'', ''C'', ''D''] post 36000000000
         = Inr \<lparr>available_section =
                  [(''A'', JList [], Inf), (''B'', JList [], Inf), (''F'', JList [], Inf)],
                available_until = [(''A'', None), (''B'', None), (''F'', None)],
                next_section = None, summary = (3, 2), fetch_lines = []\<rparr>
       \<and> check_rooms_flask fromisoformat [''A'', ''B'', ''C'', ''D'', ''E''] post 36000000000
         = Inr \<lparr>available = [(''A'', None), (''B'', None)],
                next_available = [(''D'', 37800000000, Inf), (''C'', 39600000000, Inf)],
                summary_flask = (2, 3)\<rparr>
       \<and> check_rooms_flask fromisoformat [''A'', ''B'', ''F'', ''C'', ''D''] post 36000000000
         = Inr \<lparr>available = [(''A'', None), (''B'', None), (''F'', None)],
                next_available = [],
                summary_flask = (3, 2)\<rparr>)"
proof -
  let ?fromisoformat = "map_of [(''0001-01-01T09:00:00'', 32400000000),
                                (''0001-01-01T10:30:00'', 37800000000),
                                (''0001-01-01T11:00:00'', 39600000000),
                                (''0001-01-01T12:00:00'', 43200000000::int)]"
  let ?event = "\<lambda>s e. JObj [(''start'', JStr s), (''end'', JStr e)]"
  let ?post = "\<lambda>room.
      if room = ''C'' then Returns (JList [?event ''0001-01-01T09:00:00'' ''0001-01-01T11:00:00''])
      else if room = ''D''
      then Returns (JList [?event ''0001-01-01T09:00:00'' ''0001-01-01T10:30:00''])
      else if room = ''E''
      then Returns (JList [?event ''0001-01-01T09:00:00'' ''0001-01-01T12:00:00''])
      else Returns (JList [])"
  show ?thesis
    using next_section_only_when_few_available
            [of ?fromisoformat "[''A'', ''B'', ''C'', ''D'', ''E'']" ?post 36000000000
                36000000000]
    by (simp add: run_simps flask_simps)
qed

section \<open>Failed fetches\<close>






end
